theory Spec2Isabelle
  imports Main "HOL-Library.Word"
begin

unbundle bit_operations_syntax

section \<open>Error codes (kernel/errno.h)\<close>

definition EOK :: int where "EOK = 0"
definition ENOENT :: int where "ENOENT = 2"
definition EIO :: int where "EIO = 5"
definition ENXIO :: int where "ENXIO = 6"
definition EISDIR :: int where "EISDIR = 21"
definition EINVAL :: int where "EINVAL = 22"
definition EMFILE :: int where "EMFILE = 24"
definition ENOSYS :: int where "ENOSYS = 38"
definition ELOOP :: int where "ELOOP = 40"
definition EFS_INODE_FULL :: int where "EFS_INODE_FULL = 128"

section \<open>On-disk format (kernel/fs.h)\<close>

definition ROOTINO :: nat where "ROOTINO = 1"
definition BSIZE :: nat where "BSIZE = 4096"
definition NDIRECT :: nat where "NDIRECT = 10"
definition DIRSIZ :: nat where "DIRSIZ = 62"

text \<open>
  The scalar types that occur in the on-disk structures, with their sizes on the 64-bit
  RISC-V target (LP64). Every scalar is aligned to its own size; a structure is aligned
  to its strictest member and its size is rounded up to that alignment.
\<close>

datatype ctype = C_char | C_short | C_ushort | C_uint16 | C_uint | C_uint32

fun sizeof_ctype :: "ctype \<Rightarrow> nat" where
  "sizeof_ctype C_char = 1"
| "sizeof_ctype C_short = 2"
| "sizeof_ctype C_ushort = 2"
| "sizeof_ctype C_uint16 = 2"
| "sizeof_ctype C_uint = 4"
| "sizeof_ctype C_uint32 = 4"

text \<open>A member: its name, its element type and its number of elements (1 for a scalar).\<close>

type_synonym cfield = "string \<times> ctype \<times> nat"

definition round_up :: "nat \<Rightarrow> nat \<Rightarrow> nat" where
  "round_up off a = ((off + a - 1) div a) * a"

fun place :: "nat \<Rightarrow> cfield list \<Rightarrow> nat" where
  "place off [] = off"
| "place off ((_, t, n) # fs) = place (round_up off (sizeof_ctype t) + n * sizeof_ctype t) fs"

definition struct_align :: "cfield list \<Rightarrow> nat" where
  "struct_align fs = fold max (map (\<lambda>(_, t, _). sizeof_ctype t) fs) 1"

definition sizeof_struct :: "cfield list \<Rightarrow> nat" where
  "sizeof_struct fs = round_up (place 0 fs) (struct_align fs)"

definition sizeof_uint :: nat where
  "sizeof_uint = sizeof_ctype C_uint"

definition NINDIRECT :: nat where "NINDIRECT = BSIZE div sizeof_uint"
definition NINDIRECT2 :: nat where "NINDIRECT2 = NINDIRECT * NINDIRECT"
definition NINDIRECT3 :: nat where "NINDIRECT3 = NINDIRECT * NINDIRECT * NINDIRECT"
definition MAXFILE :: nat where "MAXFILE = NDIRECT + NINDIRECT + NINDIRECT2 + NINDIRECT3"

text \<open>\<^verbatim>\<open>struct dinode\<close>, member by member.\<close>

definition dinode_fields :: "cfield list" where
  "dinode_fields =
    [(''type'', C_short, 1), (''major'', C_short, 1), (''minor'', C_short, 1),
     (''nlink'', C_short, 1), (''size'', C_uint, 1), (''addrs'', C_uint, NDIRECT + 3),
     (''mode'', C_uint16, 1), (''uid'', C_uint16, 1), (''atime'', C_uint32, 1),
     (''mtime'', C_uint32, 1), (''ctime'', C_uint32, 1), (''blocks'', C_uint32, 1),
     (''padding'', C_char, 44)]"

definition sizeof_dinode :: nat where
  "sizeof_dinode = sizeof_struct dinode_fields"

definition IPB :: nat where
  "IPB = BSIZE div sizeof_dinode"

text \<open>\<^verbatim>\<open>struct dirent\<close>.\<close>

definition dirent_fields :: "cfield list" where
  "dirent_fields = [(''inum'', C_ushort, 1), (''name'', C_char, DIRSIZ)]"

definition sizeof_dirent :: nat where
  "sizeof_dirent = sizeof_struct dirent_fields"

lemma NINDIRECT_val: "NINDIRECT = 1024"
  by (simp add: NINDIRECT_def BSIZE_def sizeof_uint_def)

lemma sizeof_dinode_val: "sizeof_dinode = 128"
  by code_simp

lemma sizeof_dirent_val: "sizeof_dirent = 64"
  by code_simp

text \<open>
  C9, as the code has it. The dinode record with its explicit 44 bytes of padding is
  exactly 128 bytes, and a 4096-byte block holds exactly 32 of them: \<open>IPB\<close> is 32
  (the header's own comment computes 4096/32 = 128).
\<close>

theorem dinode_packing: "sizeof_dinode = 128 \<and> IPB = 32 \<and> IPB * sizeof_dinode = BSIZE"
  by (simp add: IPB_def sizeof_dinode_val BSIZE_def)

text \<open>C9 as stated (sixteen dinodes per block, \<open>IPB = 16\<close>) does not hold.\<close>

theorem dinode_packing_counterexample: "\<not> (sizeof_dinode = 128 \<and> IPB = 16)"
  by (simp add: IPB_def sizeof_dinode_val BSIZE_def)

section \<open>Process table (kernel/proc.h, kernel/proc.c)\<close>

text \<open>
  Modelled from the spec: \<^verbatim>\<open>param.h\<close> is not among the sources; the process table is
  "fixed", and the user test \<^verbatim>\<open>scheduler_test.c\<close> defines \<^verbatim>\<open>NPROC\<close> as 64.
\<close>

definition NPROC :: nat where "NPROC = 64"

datatype procstate = UNUSED | USED | SLEEPING | RUNNABLE | RUNNING | ZOMBIE

text \<open>The registers of the trap frame that the modelled code reads or writes.\<close>

record trapframe =
  a0 :: "64 word"
  a1 :: "64 word"
  a7 :: "64 word"

text \<open>
  \<^verbatim>\<open>struct proc\<close>. A C \<^verbatim>\<open>int\<close> is an \<open>int\<close> here (none of the modelled arithmetic on
  these fields can overflow); pointers to other table slots are slot indices, a null
  pointer is \<open>None\<close>; a sleep channel is an address, 0 for none. The spin locks are not
  modelled: every function below is one atomic step of one CPU. The open-file table is
  left out.
\<close>

record proc =
  state :: procstate
  chan :: nat
  killed :: int
  xstate :: int
  pid :: int
  priority :: int
  errno :: int
  mlfq_level :: int
  time_used :: int
  time_quantum :: int
  parent :: "nat option"
  sz :: nat
  pagetable :: bool
  trapframe :: "trapframe option"
  cwd :: nat
  name :: string

text \<open>The value of the function pointer \<^verbatim>\<open>select_next_proc\<close>.\<close>

datatype selector = SEL_ROUND_ROBIN | SEL_PRIORITY | SEL_MLFQ

definition MAX_PRIORITY_LEVELS :: nat where "MAX_PRIORITY_LEVELS = 5"

text \<open>
  The global kernel state the modelled functions touch: the process table, the pid
  counter, the selector, the MLFQ queues (\<open>queues k l\<close> is the occupied prefix
  \<^verbatim>\<open>processes[0..count-1]\<close> of level \<open>l\<close>, as slot indices) and the process running on
  this CPU (\<^verbatim>\<open>myproc()\<close>, null in scheduler context).
\<close>

record kernel =
  procs :: "proc list"
  nextpid :: int
  select_next_proc :: selector
  queues :: "nat \<Rightarrow> nat list"
  cpu_proc :: "nat option"

subsection \<open>wakeup\<close>

fun wakeup_loop :: "nat \<Rightarrow> nat option \<Rightarrow> nat \<Rightarrow> proc list \<Rightarrow> proc list" where
  "wakeup_loop c me i [] = []"
| "wakeup_loop c me i (p # ps) =
     (if Some i \<noteq> me
      then (if state p = SLEEPING \<and> chan p = c then p\<lparr>state := RUNNABLE\<rparr> else p)
      else p) # wakeup_loop c me (Suc i) ps"

definition wakeup :: "nat \<Rightarrow> kernel \<Rightarrow> kernel" where
  "wakeup c k = k\<lparr>procs := wakeup_loop c (cpu_proc k) 0 (procs k)\<rparr>"

subsection \<open>Selectors (kernel/scheduler_ext.c)\<close>

text \<open>
  The loop of \<^verbatim>\<open>priority_scheduler\<close>: \<open>i\<close> is the slot of the head of the remaining table,
  \<open>best\<close> and \<open>highest\<close> are \<^verbatim>\<open>best_proc\<close> and \<^verbatim>\<open>highest_priority\<close>.
\<close>

fun priority_scan :: "proc list \<Rightarrow> nat \<Rightarrow> nat option \<Rightarrow> int \<Rightarrow> nat option" where
  "priority_scan [] i best highest = best"
| "priority_scan (p # ps) i best highest =
     (if state p = RUNNABLE \<and> priority p > highest
      then priority_scan ps (Suc i) (Some i) (priority p)
      else priority_scan ps (Suc i) best highest)"

definition priority_scheduler :: "kernel \<Rightarrow> nat option" where
  "priority_scheduler k = priority_scan (procs k) 0 None (- 1)"

definition mlfq_add_process :: "kernel \<Rightarrow> nat \<Rightarrow> int \<Rightarrow> kernel" where
  "mlfq_add_process k p level =
     (if level < 0 \<or> level \<ge> int MAX_PRIORITY_LEVELS then k
      else if length (queues k (nat level)) < NPROC
        then k\<lparr>queues := (queues k)(nat level := queues k (nat level) @ [p])\<rparr>
        else k)"

definition mlfq_remove_process :: "kernel \<Rightarrow> nat \<Rightarrow> int \<Rightarrow> kernel" where
  "mlfq_remove_process k p level =
     (if level < 0 \<or> level \<ge> int MAX_PRIORITY_LEVELS then k
      else k\<lparr>queues := (queues k)(nat level := remove1 p (queues k (nat level)))\<rparr>)"

subsection \<open>allocproc, freeproc, yield, kfork\<close>

text \<open>
  What the rest of the kernel answers during a fork: the page \<^verbatim>\<open>kalloc\<close> returns for the
  trap frame (\<open>None\<close> when memory is exhausted), and whether \<^verbatim>\<open>proc_pagetable\<close> and
  \<^verbatim>\<open>uvmcopy\<close> succeed.
\<close>

record env =
  kalloc_page :: "trapframe option"
  pagetable_ok :: bool
  uvmcopy_ok :: bool

definition freeproc :: "proc \<Rightarrow> proc" where
  "freeproc p = p\<lparr>trapframe := None, pagetable := False, sz := 0, pid := 0, parent := None,
     name := [], chan := 0, killed := 0, xstate := 0, state := UNUSED\<rparr>"

fun find_unused :: "proc list \<Rightarrow> nat \<Rightarrow> nat option" where
  "find_unused [] i = None"
| "find_unused (p # ps) i = (if state p = UNUSED then Some i else find_unused ps (Suc i))"

text \<open>\<open>allocproc\<close> returns the slot it claimed (\<open>None\<close> for the null pointer).\<close>

definition allocproc :: "env \<Rightarrow> kernel \<Rightarrow> nat option \<times> kernel" where
  "allocproc e k =
     (case find_unused (procs k) 0 of
        None \<Rightarrow> (None, k)
      | Some i \<Rightarrow>
          let p = (procs k ! i)\<lparr>pid := nextpid k, state := USED, priority := 5, errno := 0,
                     mlfq_level := 0, time_used := 0, time_quantum := 1\<rparr>;
              k1 = k\<lparr>nextpid := nextpid k + 1\<rparr>
          in (case kalloc_page e of
                None \<Rightarrow> (None, k1\<lparr>procs := (procs k)[i := freeproc (p\<lparr>trapframe := None\<rparr>)]\<rparr>)
              | Some page \<Rightarrow>
                  let p1 = p\<lparr>trapframe := Some page\<rparr> in
                  if \<not> pagetable_ok e
                  then (None, k1\<lparr>procs := (procs k)[i := freeproc (p1\<lparr>pagetable := False\<rparr>)]\<rparr>)
                  else (Some i, k1\<lparr>procs := (procs k)[i := p1\<lparr>pagetable := True\<rparr>]\<rparr>)))"

text \<open>\<open>yield\<close> up to its call of \<^verbatim>\<open>sched\<close>, for the process in slot \<open>pi\<close>.\<close>

definition yield :: "kernel \<Rightarrow> nat \<Rightarrow> kernel" where
  "yield k pi =
     (let k1 = (if select_next_proc k = SEL_MLFQ
                then mlfq_remove_process k pi (mlfq_level (procs k ! pi)) else k);
          k2 = k1\<lparr>procs := (procs k1)[pi := (procs k1 ! pi)\<lparr>state := RUNNABLE\<rparr>]\<rparr>
      in if select_next_proc k2 = SEL_MLFQ
         then mlfq_add_process k2 pi (mlfq_level (procs k2 ! pi)) else k2)"

text \<open>
  \<open>kfork\<close> returns the value the parent gets and the kernel state at the moment the parent
  returns or, when it yields, hands the CPU to the scheduler. \<open>None\<close> is a kernel fault:
  the caller is not a process of the table or has no trap frame (a null dereference).
\<close>

definition kfork :: "env \<Rightarrow> kernel \<Rightarrow> (int \<times> kernel) option" where
  "kfork e k =
     (case cpu_proc k of
        None \<Rightarrow> None
      | Some pi \<Rightarrow>
          if pi \<ge> length (procs k) then None
          else (case allocproc e k of
              (None, k1) \<Rightarrow> Some (- 1, k1)
            | (Some ni, k1) \<Rightarrow>
                if \<not> uvmcopy_ok e
                then Some (- 1, k1\<lparr>procs := (procs k1)[ni := freeproc (procs k1 ! ni)]\<rparr>)
                else (case trapframe (procs k1 ! pi) of
                    None \<Rightarrow> None
                  | Some ptf \<Rightarrow>
                      let p = procs k1 ! pi;
                          np = (procs k1 ! ni)\<lparr>sz := sz p, trapframe := Some (ptf\<lparr>a0 := 0\<rparr>),
                                  cwd := cwd p, name := take 15 (name p)\<rparr>;
                          cpid = pid np;
                          np1 = np\<lparr>parent := Some pi\<rparr>;
                          np2 = np1\<lparr>state := RUNNABLE\<rparr>;
                          child_priority = priority np2;
                          child_level = mlfq_level np2;
                          k2 = k1\<lparr>procs := (procs k1)[ni := np2]\<rparr>;
                          k3 = (if select_next_proc k2 = SEL_MLFQ
                                then mlfq_add_process k2 ni child_level else k2);
                          k4 = (if child_priority > priority (procs k3 ! pi)
                                then yield k3 pi else k3)
                      in Some (cpid, k4))))"

subsection \<open>Properties of wakeup\<close>

lemma wakeup_loop_length: "length (wakeup_loop c me i ps) = length ps"
  by (induction ps arbitrary: i) auto

lemma wakeup_loop_nth:
  "j < length ps \<Longrightarrow>
   wakeup_loop c me i ps ! j =
     (if Some (i + j) \<noteq> me \<and> state (ps ! j) = SLEEPING \<and> chan (ps ! j) = c
      then (ps ! j)\<lparr>state := RUNNABLE\<rparr> else ps ! j)"
proof (induction ps arbitrary: i j)
  case Nil
  then show ?case by simp
next
  case (Cons p ps)
  show ?case
  proof (cases j)
    case 0
    then show ?thesis by simp
  next
    case (Suc j')
    with Cons.prems have "j' < length ps" by simp
    from Cons.IH [OF this, of "Suc i"] Suc show ?thesis by simp
  qed
qed

definition idle_proc :: proc where
  "idle_proc = \<lparr>state = UNUSED, chan = 0, killed = 0, xstate = 0, pid = 0, priority = 0,
     errno = 0, mlfq_level = 0, time_used = 0, time_quantum = 0, parent = None, sz = 0,
     pagetable = False, trapframe = None, cwd = 0, name = []\<rparr>"

definition table3 :: kernel where
  "table3 = \<lparr>procs = [idle_proc\<lparr>state := RUNNABLE, priority := 3, pid := 1\<rparr>,
                       idle_proc\<lparr>state := SLEEPING, priority := 9, pid := 2, chan := 7\<rparr>,
                       idle_proc\<lparr>state := RUNNABLE, priority := 6, pid := 3\<rparr>,
                       idle_proc\<lparr>state := RUNNABLE, priority := 6, pid := 4\<rparr>],
     nextpid = 5, select_next_proc = SEL_PRIORITY, queues = (\<lambda>_. []), cpu_proc = None\<rparr>"

text \<open>
  C8. For every channel, \<open>wakeup\<close> walks the whole table, skips the calling process, and
  makes runnable exactly the other processes that are sleeping on that channel: every
  other slot, and every other field of the kernel state, is left as it was.
\<close>

theorem wakeup_semantics:
  "length (procs (wakeup c k)) = length (procs k) \<and>
   (\<forall>i < length (procs k).
      procs (wakeup c k) ! i =
        (if Some i \<noteq> cpu_proc k \<and> state (procs k ! i) = SLEEPING \<and> chan (procs k ! i) = c
         then (procs k ! i)\<lparr>state := RUNNABLE\<rparr> else procs k ! i)) \<and>
   queues (wakeup c k) = queues k \<and> cpu_proc (wakeup c k) = cpu_proc k \<and>
   select_next_proc (wakeup c k) = select_next_proc k \<and> nextpid (wakeup c k) = nextpid k"
  by (simp add: wakeup_def wakeup_loop_length wakeup_loop_nth)

theorem wakeup_semantics_witness:
  "map state (procs (wakeup 7 table3)) = [RUNNABLE, RUNNABLE, RUNNABLE, RUNNABLE] \<and>
   map state (procs (wakeup 8 table3)) = [RUNNABLE, SLEEPING, RUNNABLE, RUNNABLE] \<and>
   map state (procs (wakeup 7 (table3\<lparr>cpu_proc := Some 1\<rparr>))) = [RUNNABLE, SLEEPING, RUNNABLE, RUNNABLE]"
  using wakeup_semantics [of 7 table3] wakeup_semantics [of 8 table3]
    wakeup_semantics [of 7 "table3\<lparr>cpu_proc := Some 1\<rparr>"]
  by (simp add: table3_def idle_proc_def wakeup_def)

subsection \<open>Properties of the priority selector\<close>

lemma priority_scan_spec:
  "priority_scan ps i best hp = r \<Longrightarrow>
   (r = best \<and> (\<forall>p \<in> set ps. state p = RUNNABLE \<longrightarrow> priority p \<le> hp)) \<or>
   (\<exists>j < length ps. r = Some (i + j) \<and> state (ps ! j) = RUNNABLE \<and> priority (ps ! j) > hp \<and>
      (\<forall>l < length ps. state (ps ! l) = RUNNABLE \<longrightarrow> priority (ps ! l) \<le> priority (ps ! j)) \<and>
      (\<forall>l < j. state (ps ! l) = RUNNABLE \<longrightarrow> priority (ps ! l) < priority (ps ! j)))"
proof (induction ps arbitrary: i best hp)
  case Nil
  then show ?case by simp
next
  case (Cons p ps)
  show ?case
  proof (cases "state p = RUNNABLE \<and> priority p > hp")
    case True
    with Cons.prems have r: "priority_scan ps (Suc i) (Some i) (priority p) = r" by simp
    from Cons.IH [OF r] show ?thesis
    proof
      assume a: "r = Some i \<and> (\<forall>q \<in> set ps. state q = RUNNABLE \<longrightarrow> priority q \<le> priority p)"
      have "0 < length (p # ps) \<and> r = Some (i + 0) \<and> state ((p # ps) ! 0) = RUNNABLE \<and>
          priority ((p # ps) ! 0) > hp \<and>
          (\<forall>l < length (p # ps). state ((p # ps) ! l) = RUNNABLE \<longrightarrow>
              priority ((p # ps) ! l) \<le> priority ((p # ps) ! 0)) \<and>
          (\<forall>l < 0. state ((p # ps) ! l) = RUNNABLE \<longrightarrow>
              priority ((p # ps) ! l) < priority ((p # ps) ! 0))"
        using a True by (auto simp: nth_Cons split: nat.splits)
      then show ?thesis by blast
    next
      assume "\<exists>j<length ps. r = Some (Suc i + j) \<and> state (ps ! j) = RUNNABLE \<and>
        priority p < priority (ps ! j) \<and>
        (\<forall>l<length ps. state (ps ! l) = RUNNABLE \<longrightarrow> priority (ps ! l) \<le> priority (ps ! j)) \<and>
        (\<forall>l<j. state (ps ! l) = RUNNABLE \<longrightarrow> priority (ps ! l) < priority (ps ! j))"
      then obtain j where j: "j < length ps" "r = Some (Suc i + j)" "state (ps ! j) = RUNNABLE"
        "priority p < priority (ps ! j)"
        "\<forall>l<length ps. state (ps ! l) = RUNNABLE \<longrightarrow> priority (ps ! l) \<le> priority (ps ! j)"
        "\<forall>l<j. state (ps ! l) = RUNNABLE \<longrightarrow> priority (ps ! l) < priority (ps ! j)"
        by blast
      have "Suc j < length (p # ps) \<and> r = Some (i + Suc j) \<and>
          state ((p # ps) ! Suc j) = RUNNABLE \<and> priority ((p # ps) ! Suc j) > hp \<and>
          (\<forall>l < length (p # ps). state ((p # ps) ! l) = RUNNABLE \<longrightarrow>
              priority ((p # ps) ! l) \<le> priority ((p # ps) ! Suc j)) \<and>
          (\<forall>l < Suc j. state ((p # ps) ! l) = RUNNABLE \<longrightarrow>
              priority ((p # ps) ! l) < priority ((p # ps) ! Suc j))"
        using j True by (auto simp: nth_Cons split: nat.splits)
      then show ?thesis by blast
    qed
  next
    case False
    with Cons.prems have r: "priority_scan ps (Suc i) best hp = r" by auto
    from Cons.IH [OF r] show ?thesis
    proof
      assume a: "r = best \<and> (\<forall>q \<in> set ps. state q = RUNNABLE \<longrightarrow> priority q \<le> hp)"
      then show ?thesis using False by auto
    next
      assume "\<exists>j<length ps. r = Some (Suc i + j) \<and> state (ps ! j) = RUNNABLE \<and>
        hp < priority (ps ! j) \<and>
        (\<forall>l<length ps. state (ps ! l) = RUNNABLE \<longrightarrow> priority (ps ! l) \<le> priority (ps ! j)) \<and>
        (\<forall>l<j. state (ps ! l) = RUNNABLE \<longrightarrow> priority (ps ! l) < priority (ps ! j))"
      then obtain j where j: "j < length ps" "r = Some (Suc i + j)" "state (ps ! j) = RUNNABLE"
        "hp < priority (ps ! j)"
        "\<forall>l<length ps. state (ps ! l) = RUNNABLE \<longrightarrow> priority (ps ! l) \<le> priority (ps ! j)"
        "\<forall>l<j. state (ps ! l) = RUNNABLE \<longrightarrow> priority (ps ! l) < priority (ps ! j)"
        by blast
      have "Suc j < length (p # ps) \<and> r = Some (i + Suc j) \<and>
          state ((p # ps) ! Suc j) = RUNNABLE \<and> priority ((p # ps) ! Suc j) > hp \<and>
          (\<forall>l < length (p # ps). state ((p # ps) ! l) = RUNNABLE \<longrightarrow>
              priority ((p # ps) ! l) \<le> priority ((p # ps) ! Suc j)) \<and>
          (\<forall>l < Suc j. state ((p # ps) ! l) = RUNNABLE \<longrightarrow>
              priority ((p # ps) ! l) < priority ((p # ps) ! Suc j))"
        using j False by (auto simp: nth_Cons split: nat.splits)
      then show ?thesis by blast
    qed
  qed
qed

text \<open>
  C7. With the priorities of the runnable processes in the range 0..9, the priority
  selector returns none exactly when no process is runnable; otherwise it returns a
  runnable process of maximal priority among the runnable ones, and the lowest slot among
  those of maximal priority. So a runnable process of higher priority is always selected
  in preference to one of lower priority.
\<close>

theorem priority_selector_correct:
  assumes range: "\<forall>p \<in> set (procs k). state p = RUNNABLE \<longrightarrow> 0 \<le> priority p \<and> priority p \<le> 9"
  shows "(priority_scheduler k = None \<longleftrightarrow> (\<forall>p \<in> set (procs k). state p \<noteq> RUNNABLE)) \<and>
    (\<forall>i. priority_scheduler k = Some i \<longrightarrow>
       i < length (procs k) \<and> state (procs k ! i) = RUNNABLE \<and>
       (\<forall>j < length (procs k). state (procs k ! j) = RUNNABLE \<longrightarrow>
           priority (procs k ! j) \<le> priority (procs k ! i)) \<and>
       (\<forall>j < i. state (procs k ! j) = RUNNABLE \<longrightarrow>
           priority (procs k ! j) < priority (procs k ! i)))"
proof -
  let ?ps = "procs k"
  from priority_scan_spec [of ?ps 0 None "- 1" "priority_scheduler k"]
  have spec: "(priority_scheduler k = None \<and>
        (\<forall>p \<in> set ?ps. state p = RUNNABLE \<longrightarrow> priority p \<le> - 1)) \<or>
      (\<exists>j < length ?ps. priority_scheduler k = Some j \<and> state (?ps ! j) = RUNNABLE \<and>
        priority (?ps ! j) > - 1 \<and>
        (\<forall>l < length ?ps. state (?ps ! l) = RUNNABLE \<longrightarrow> priority (?ps ! l) \<le> priority (?ps ! j)) \<and>
        (\<forall>l < j. state (?ps ! l) = RUNNABLE \<longrightarrow> priority (?ps ! l) < priority (?ps ! j)))"
    by (simp add: priority_scheduler_def)
  then show ?thesis
  proof
    assume a: "priority_scheduler k = None \<and>
        (\<forall>p \<in> set ?ps. state p = RUNNABLE \<longrightarrow> priority p \<le> - 1)"
    have "\<forall>p \<in> set ?ps. state p \<noteq> RUNNABLE"
    proof
      fix p assume p: "p \<in> set ?ps"
      show "state p \<noteq> RUNNABLE"
      proof
        assume "state p = RUNNABLE"
        with a p range have "priority p \<le> - 1" "0 \<le> priority p" by auto
        then show False by simp
      qed
    qed
    with a show ?thesis by simp
  next
    assume "\<exists>j < length ?ps. priority_scheduler k = Some j \<and> state (?ps ! j) = RUNNABLE \<and>
        priority (?ps ! j) > - 1 \<and>
        (\<forall>l < length ?ps. state (?ps ! l) = RUNNABLE \<longrightarrow> priority (?ps ! l) \<le> priority (?ps ! j)) \<and>
        (\<forall>l < j. state (?ps ! l) = RUNNABLE \<longrightarrow> priority (?ps ! l) < priority (?ps ! j))"
    then obtain j where j: "j < length ?ps" "priority_scheduler k = Some j"
        "state (?ps ! j) = RUNNABLE"
        "\<forall>l < length ?ps. state (?ps ! l) = RUNNABLE \<longrightarrow> priority (?ps ! l) \<le> priority (?ps ! j)"
        "\<forall>l < j. state (?ps ! l) = RUNNABLE \<longrightarrow> priority (?ps ! l) < priority (?ps ! j)"
      by blast
    from j(1,3) have "\<exists>p \<in> set ?ps. state p = RUNNABLE" using nth_mem by blast
    with j show ?thesis by auto
  qed
qed

theorem priority_selector_correct_witness:
  "priority_scheduler table3 = Some 2 \<and> state (procs table3 ! 2) = RUNNABLE \<and>
   priority (procs table3 ! 0) < priority (procs table3 ! 2)"
proof -
  have r: "\<forall>p \<in> set (procs table3). state p = RUNNABLE \<longrightarrow> 0 \<le> priority p \<and> priority p \<le> 9"
    by (simp add: table3_def idle_proc_def)
  have v: "priority_scheduler table3 = Some 2"
    by (simp add: priority_scheduler_def table3_def idle_proc_def)
  from priority_selector_correct [OF r] v show ?thesis
    by (simp add: table3_def idle_proc_def)
qed

subsection \<open>Properties of kfork under MLFQ\<close>

lemma find_unused_bound: "find_unused ps i = Some n \<Longrightarrow> i \<le> n \<and> n < i + length ps"
proof (induction ps arbitrary: i)
  case Nil
  then show ?case by simp
next
  case (Cons p ps)
  show ?case
  proof (cases "state p = UNUSED")
    case True
    with Cons.prems show ?thesis by simp
  next
    case False
    with Cons.prems have "find_unused ps (Suc i) = Some n" by simp
    from Cons.IH [OF this] show ?thesis by simp
  qed
qed

lemma allocproc_Some:
  "allocproc e k = (Some ni, k1) \<Longrightarrow>
   find_unused (procs k) 0 = Some ni \<and> ni < length (procs k) \<and>
   length (procs k1) = length (procs k) \<and>
   mlfq_level (procs k1 ! ni) = 0 \<and> pid (procs k1 ! ni) = nextpid k \<and>
   priority (procs k1 ! ni) = 5 \<and>
   queues k1 = queues k \<and> select_next_proc k1 = select_next_proc k"
  by (auto simp: allocproc_def Let_def split: option.splits if_splits dest: find_unused_bound)

lemma mlfq_add_mem:
  "length (queues k 0) < NPROC \<Longrightarrow> ni \<in> set (queues (mlfq_add_process k ni 0) 0)"
  by (simp add: mlfq_add_process_def MAX_PRIORITY_LEVELS_def)

lemma mlfq_add_procs [simp]: "procs (mlfq_add_process k p l) = procs k"
  by (simp add: mlfq_add_process_def)

lemma mlfq_add_sel [simp]: "select_next_proc (mlfq_add_process k p l) = select_next_proc k"
  by (simp add: mlfq_add_process_def)

lemma level_after_state_update [simp]:
  "mlfq_level (ps[i := (ps ! i)\<lparr>state := s\<rparr>] ! j) = mlfq_level (ps ! j)"
  by (cases "i < length ps") (simp_all add: nth_list_update list_update_beyond)

lemma yield_keeps_member:
  assumes "ni \<in> set (queues k 0)" and len: "length (queues k 0) \<le> NPROC"
  shows "ni \<in> set (queues (yield k pi) 0)"
proof (cases "select_next_proc k = SEL_MLFQ")
  case False
  then show ?thesis using assms by (simp add: yield_def Let_def)
next
  case True
  let ?l = "mlfq_level (procs k ! pi)"
  show ?thesis
  proof (cases "ni = pi \<and> ?l = 0")
    case False
    then show ?thesis using assms True
      by (auto simp: yield_def Let_def mlfq_add_process_def mlfq_remove_process_def
          MAX_PRIORITY_LEVELS_def)
  next
    case same: True
    from assms(1) have "0 < length (queues k 0)" by (cases "queues k 0") auto
    moreover have "length (remove1 ni (queues k 0)) = length (queues k 0) - 1"
      using assms(1) by (simp add: length_remove1)
    ultimately have "length (remove1 ni (queues k 0)) < NPROC"
      using len by arith
    then show ?thesis using same True
      by (simp add: yield_def Let_def mlfq_add_process_def mlfq_remove_process_def
          MAX_PRIORITY_LEVELS_def)
  qed
qed


lemma yield_other:
  "length (procs (yield k pi)) = length (procs k) \<and>
   (\<forall>i. i \<noteq> pi \<longrightarrow> procs (yield k pi) ! i = procs k ! i) \<and>
   (pi < length (procs k) \<longrightarrow> procs (yield k pi) ! pi = (procs k ! pi)\<lparr>state := RUNNABLE\<rparr>)"
  by (simp add: yield_def Let_def mlfq_add_process_def mlfq_remove_process_def)

text \<open>
  C6, as the code has it. Under the MLFQ selector a successful fork leaves the child
  runnable with MLFQ level 0, the level \<open>allocproc\<close> gives every new process, and
  enqueues it on queue 0 (when that queue has room), whatever the level of the parent.
\<close>

theorem kfork_mlfq_level0:
  assumes mlfq: "select_next_proc k = SEL_MLFQ"
    and ok: "kfork e k = Some (r, k')"
    and pidpos: "0 < nextpid k"
    and succ: "r \<noteq> - 1"
    and room: "length (queues k 0) < NPROC"
  shows "\<exists>ni. find_unused (procs k) 0 = Some ni \<and> pid (procs k' ! ni) = r \<and>
           state (procs k' ! ni) = RUNNABLE \<and> mlfq_level (procs k' ! ni) = 0 \<and>
           ni \<in> set (queues k' 0)"
proof -
  from ok obtain pi where pi: "cpu_proc k = Some pi" "pi < length (procs k)"
    by (auto simp: kfork_def split: option.splits if_splits)
  obtain a k1 where al: "allocproc e k = (a, k1)" by (cases "allocproc e k")
  from ok pi al succ obtain ni where ni: "a = Some ni"
    by (cases a) (auto simp: kfork_def)
  from ok pi al ni succ have uv: "uvmcopy_ok e"
    by (auto simp: kfork_def split: if_splits)
  from ok pi al ni uv obtain ptf where ptf: "trapframe (procs k1 ! pi) = Some ptf"
    by (auto simp: kfork_def split: option.splits)
  note A = allocproc_Some [OF al [unfolded ni]]
  define np2 where "np2 = (procs k1 ! ni)\<lparr>sz := sz (procs k1 ! pi),
      trapframe := Some (ptf\<lparr>a0 := 0\<rparr>), cwd := cwd (procs k1 ! pi),
      name := take 15 (name (procs k1 ! pi)), parent := Some pi, state := RUNNABLE\<rparr>"
  define k2 where "k2 = k1\<lparr>procs := (procs k1)[ni := np2]\<rparr>"
  define k3 where "k3 = mlfq_add_process k2 ni 0"
  define k4 where "k4 = (if 5 > priority (procs k3 ! pi) then yield k3 pi else k3)"
  have sel1: "select_next_proc k1 = SEL_MLFQ" using A mlfq by simp
  have lvl: "mlfq_level (procs k1 ! ni) = 0" and pri: "priority (procs k1 ! ni) = 5"
    and pd: "pid (procs k1 ! ni) = nextpid k"
    using A by simp_all
  have "kfork e k = Some (nextpid k, k4)"
    using pi al ni uv ptf
    by (simp add: kfork_def Let_def k4_def k3_def k2_def np2_def sel1 lvl pri pd)
  with ok have res: "r = nextpid k" "k' = k4" by simp_all
  have nilen: "ni < length (procs k1)" using A by simp
  have p3: "procs k3 ! ni = np2" using nilen by (simp add: k3_def k2_def)
  have q2: "length (queues k2 0) < NPROC" using room A by (simp add: k2_def)
  have mem3: "ni \<in> set (queues k3 0)" unfolding k3_def by (rule mlfq_add_mem [OF q2])
  have len3: "length (queues k3 0) \<le> NPROC"
    using q2 by (simp add: k3_def mlfq_add_process_def MAX_PRIORITY_LEVELS_def)
  have mem4: "ni \<in> set (queues k4 0)"
    using mem3 len3 by (simp add: k4_def yield_keeps_member)
  have l3: "ni < length (procs k3)" using nilen by (simp add: k3_def k2_def)
  have p4: "pid (procs k4 ! ni) = pid np2 \<and> state (procs k4 ! ni) = RUNNABLE \<and>
      mlfq_level (procs k4 ! ni) = mlfq_level np2"
  proof (cases "5 > priority (procs k3 ! pi)")
    case False
    then show ?thesis using p3 by (simp add: k4_def np2_def)
  next
    case True
    show ?thesis
    proof (cases "ni = pi")
      case True
      with yield_other [of k3 pi] l3 p3 \<open>5 > priority (procs k3 ! pi)\<close> show ?thesis
        by (simp add: k4_def np2_def)
    next
      case False
      with yield_other [of k3 pi] p3 \<open>5 > priority (procs k3 ! pi)\<close> show ?thesis
        by (simp add: k4_def np2_def)
    qed
  qed
  have "pid np2 = nextpid k" "mlfq_level np2 = 0" using A by (simp_all add: np2_def)
  with p4 mem4 res A show ?thesis by simp
qed

definition fork_env :: env where
  "fork_env = \<lparr>kalloc_page = Some \<lparr>a0 = 5, a1 = 5, a7 = 5\<rparr>, pagetable_ok = True, uvmcopy_ok = True\<rparr>"

definition fork_k0 :: kernel where
  "fork_k0 = \<lparr>procs = [idle_proc\<lparr>state := RUNNING, pid := 1, priority := 5, mlfq_level := 2,
                          time_quantum := 4, pagetable := True,
                          trapframe := Some \<lparr>a0 = 0, a1 = 0, a7 = 1\<rparr>, name := ''sh''\<rparr>,
                        idle_proc],
     nextpid = 2, select_next_proc = SEL_MLFQ, queues = (\<lambda>_. [])(2 := [0]),
     cpu_proc = Some 0\<rparr>"

definition fork_k1 :: kernel where
  "fork_k1 = \<lparr>procs = [idle_proc\<lparr>state := RUNNING, pid := 1, priority := 5, mlfq_level := 2,
                          time_quantum := 4, pagetable := True,
                          trapframe := Some \<lparr>a0 = 0, a1 = 0, a7 = 1\<rparr>, name := ''sh''\<rparr>,
                        idle_proc\<lparr>state := RUNNABLE, pid := 2, priority := 5, mlfq_level := 0,
                          time_quantum := 1, pagetable := True, parent := Some 0,
                          trapframe := Some \<lparr>a0 = 0, a1 = 0, a7 = 1\<rparr>, name := ''sh''\<rparr>],
     nextpid = 3, select_next_proc = SEL_MLFQ, queues = (\<lambda>_. [])(2 := [0], 0 := [1]),
     cpu_proc = Some 0\<rparr>"

lemma kfork_k0: "kfork fork_env fork_k0 = Some (2, fork_k1)"
  by (simp add: kfork_def allocproc_def fork_env_def fork_k0_def fork_k1_def idle_proc_def
      Let_def mlfq_add_process_def MAX_PRIORITY_LEVELS_def NPROC_def fun_upd_twist)

text \<open>
  C6 as stated fails: a parent on level 2 forks, and the child is put on queue 0 with
  level 0, not on the parent's queue.
\<close>

theorem kfork_parent_level_counterexample:
  "kfork fork_env fork_k0 = Some (2, fork_k1) \<and>
   mlfq_level (procs fork_k0 ! 0) = 2 \<and> mlfq_level (procs fork_k1 ! 1) = 0 \<and>
   queues fork_k1 2 = [0] \<and> queues fork_k1 0 = [1]"
  by (simp add: kfork_k0) (simp add: fork_k0_def fork_k1_def idle_proc_def)

theorem kfork_mlfq_level0_witness:
  "find_unused (procs fork_k0) 0 = Some 1 \<and> pid (procs fork_k1 ! 1) = 2 \<and>
   state (procs fork_k1 ! 1) = RUNNABLE \<and> mlfq_level (procs fork_k1 ! 1) = 0 \<and>
   1 \<in> set (queues fork_k1 0)"
proof -
  have h: "select_next_proc fork_k0 = SEL_MLFQ" "0 < nextpid fork_k0" "(2::int) \<noteq> - 1"
    "length (queues fork_k0 0) < NPROC"
    by (simp_all add: fork_k0_def NPROC_def)
  have f: "find_unused (procs fork_k0) 0 = Some 1"
    by (simp add: fork_k0_def idle_proc_def)
  from kfork_mlfq_level0 [OF h(1) kfork_k0 h(2) h(3) h(4)] f show ?thesis by simp
qed

section \<open>Inode layer (kernel/fs.c)\<close>

text \<open>
  Modelled from the spec: \<^verbatim>\<open>stat.h\<close> and \<^verbatim>\<open>param.h\<close> are not among the sources. The
  spec's dinode types are free, file, dir, device and symlink; the tags below are the
  usual ones of this kernel family (free is 0 in \<^verbatim>\<open>ialloc\<close>), and all that the theorems
  use is that they are distinct and non-zero. \<^verbatim>\<open>MAXPATH\<close> is 128 and the root device 1.
\<close>

definition T_DIR :: int where "T_DIR = 1"
definition T_FILE :: int where "T_FILE = 2"
definition T_DEVICE :: int where "T_DEVICE = 3"
definition T_SYMLINK :: int where "T_SYMLINK = 4"
definition MAXPATH :: nat where "MAXPATH = 128"
definition ROOTDEV :: nat where "ROOTDEV = 1"

text \<open>
  \<^verbatim>\<open>struct inode\<close>: the fields of the dinode with the device and the inode number. The
  block-pointer array \<^verbatim>\<open>addrs[NDIRECT+3]\<close> is a function of the slot; the code only ever
  indexes it with \<open>bn < NDIRECT\<close>, \<open>NDIRECT\<close>, \<open>NDIRECT+1\<close> and \<open>NDIRECT+2\<close>. An
  unsigned 32-bit value is a \<open>nat\<close>, with the wrap-around written out where the code
  can overflow.
\<close>

record inode =
  dev :: nat
  inum :: nat
  type :: int
  major :: int
  minor :: int
  nlink :: int
  isize :: nat
  addrs :: "nat \<Rightarrow> nat"
  mode :: nat
  uid :: nat
  atime :: nat
  mtime :: nat
  ctime :: nat
  blocks :: nat

text \<open>A disk block: the byte at each offset below \<open>BSIZE\<close>.\<close>

type_synonym block = "nat \<Rightarrow> char"

definition NUL :: char where "NUL = CHR 0x00"

definition zero_block :: block where
  "zero_block = (\<lambda>_. NUL)"

text \<open>The block seen as \<^verbatim>\<open>uint a[]\<close> (little-endian, as on RISC-V).\<close>

definition uint_at :: "block \<Rightarrow> nat \<Rightarrow> nat" where
  "uint_at b i = of_char (b (4 * i)) + 256 * of_char (b (4 * i + 1)) +
     65536 * of_char (b (4 * i + 2)) + 16777216 * of_char (b (4 * i + 3))"

definition uint_upd :: "block \<Rightarrow> nat \<Rightarrow> nat \<Rightarrow> block" where
  "uint_upd b i v = b(4 * i := char_of v, 4 * i + 1 := char_of (v div 256),
     4 * i + 2 := char_of (v div 65536), 4 * i + 3 := char_of (v div 16777216))"

text \<open>
  The state of the file system of one device. The buffer cache and the log are the
  identity on the disk (\<^verbatim>\<open>bread\<close> returns the block, \<^verbatim>\<open>log_block_write\<close> stores it); the
  inode table and the on-disk inodes are one table, indexed by inode number; reference
  counts and sleep-locks are not modelled. \<open>bitmap fs b\<close> is bit \<open>b\<close> of the free
  bitmap and \<open>atime_clock\<close> the static counter of \<^verbatim>\<open>iupdatatime\<close>.
\<close>

record fs =
  sb_size :: nat
  sb_ninodes :: nat
  sb_inodestart :: nat
  bitmap :: "nat \<Rightarrow> bool"
  disk :: "nat \<Rightarrow> block"
  inodes :: "nat \<Rightarrow> inode"
  atime_clock :: nat

text \<open>What a kernel function can do instead of returning.\<close>

datatype kfault = Panic string | Undefined string

subsection \<open>balloc\<close>

text \<open>The two nested loops of \<^verbatim>\<open>balloc\<close> visit \<open>b = 0, 1, ...\<close> below \<^verbatim>\<open>sb.size\<close> in order.\<close>

fun scan_free :: "(nat \<Rightarrow> bool) \<Rightarrow> nat \<Rightarrow> nat \<Rightarrow> nat option" where
  "scan_free bm b 0 = None"
| "scan_free bm b (Suc n) = (if \<not> bm b then Some b else scan_free bm (Suc b) n)"

definition balloc :: "fs \<Rightarrow> nat \<times> fs" where
  "balloc s =
     (case scan_free (bitmap s) 0 (sb_size s) of
        None \<Rightarrow> (0, s)
      | Some b \<Rightarrow> (b, s\<lparr>bitmap := (bitmap s)(b := True), disk := (disk s)(b := zero_block)\<rparr>))"

subsection \<open>bmap\<close>

text \<open>
  The step \<^verbatim>\<open>bmap\<close> takes at a slot \<open>k\<close> of \<^verbatim>\<open>ip->addrs\<close>: load the pointer and, if it is
  zero, allocate a block and store it in the slot.
\<close>

definition bmap_slot :: "fs \<Rightarrow> nat \<Rightarrow> nat \<Rightarrow> nat \<times> fs" where
  "bmap_slot s i k =
     (let addr = addrs (inodes s i) k in
      if addr = 0
      then (case balloc s of (addr', s1) \<Rightarrow>
              if addr' = 0 then (0, s1)
              else (addr', s1\<lparr>inodes := (inodes s1)
                      (i := (inodes s1 i)\<lparr>addrs := (addrs (inodes s1 i))(k := addr')\<rparr>)\<rparr>))
      else (addr, s))"

text \<open>
  The step at entry \<open>idx\<close> of the indirect block \<open>blk\<close>: load the entry and, if it is
  zero, allocate a block, store it in the entry and write the indirect block back.
\<close>

definition bmap_entry :: "fs \<Rightarrow> nat \<Rightarrow> nat \<Rightarrow> nat \<times> fs" where
  "bmap_entry s blk idx =
     (let addr = uint_at (disk s blk) idx in
      if addr = 0
      then (case balloc s of (addr', s1) \<Rightarrow>
              if addr' \<noteq> 0
              then (addr', s1\<lparr>disk := (disk s1)(blk := uint_upd (disk s1 blk) idx addr')\<rparr>)
              else (0, s1))
      else (addr, s))"

definition bmap :: "fs \<Rightarrow> nat \<Rightarrow> nat \<Rightarrow> kfault + (nat \<times> fs)" where
  "bmap s i bn =
     (if bn < NDIRECT then Inr (bmap_slot s i bn)
      else let bn1 = bn - NDIRECT in
      if bn1 < NINDIRECT then
        (case bmap_slot s i NDIRECT of (addr, s1) \<Rightarrow>
           if addr = 0 then Inr (0, s1) else Inr (bmap_entry s1 addr bn1))
      else let bn2 = bn1 - NINDIRECT in
      if bn2 < NINDIRECT2 then
        (case bmap_slot s i (NDIRECT + 1) of (addr, s1) \<Rightarrow>
           if addr = 0 then Inr (0, s1)
           else (case bmap_entry s1 addr (bn2 div NINDIRECT) of (addr2, s2) \<Rightarrow>
             if addr2 = 0 then Inr (0, s2)
             else Inr (bmap_entry s2 addr2 (bn2 mod NINDIRECT))))
      else let bn3 = bn2 - NINDIRECT2 in
      if bn3 < NINDIRECT3 then
        (case bmap_slot s i (NDIRECT + 2) of (addr, s1) \<Rightarrow>
           if addr = 0 then Inr (0, s1)
           else (case bmap_entry s1 addr (bn3 div NINDIRECT2) of (addr2, s2) \<Rightarrow>
             if addr2 = 0 then Inr (0, s2)
             else (case bmap_entry s2 addr2 ((bn3 mod NINDIRECT2) div NINDIRECT) of (addr3, s3) \<Rightarrow>
               if addr3 = 0 then Inr (0, s3)
               else Inr (bmap_entry s3 addr3 (bn3 mod NINDIRECT)))))
      else Inl (Panic ''bmap: out of range''))"

subsection \<open>readi\<close>

text \<open>
  \<^verbatim>\<open>either_copyout\<close>: a copy to a kernel address always succeeds; a copy to a user address
  succeeds when the page table maps the range, which \<open>cp dst len\<close> answers.
\<close>

definition either_copyout :: "bool \<Rightarrow> (nat \<Rightarrow> nat \<Rightarrow> bool) \<Rightarrow> nat \<Rightarrow> nat \<Rightarrow> bool" where
  "either_copyout user_dst cp dst len = (if user_dst then cp dst len else True)"

definition iupdatatime :: "fs \<Rightarrow> nat \<Rightarrow> fs" where
  "iupdatatime s i =
     (let t = (atime_clock s + 1) mod 2 ^ 32
      in s\<lparr>atime_clock := t, inodes := (inodes s)(i := (inodes s i)\<lparr>atime := t\<rparr>)\<rparr>)"

text \<open>Unsigned 32-bit addition, and the value of an unsigned 32-bit number cast to \<^verbatim>\<open>int\<close>.\<close>

definition uadd :: "nat \<Rightarrow> nat \<Rightarrow> nat" where
  "uadd a b = (a + b) mod 2 ^ 32"

definition int_of_uint :: "nat \<Rightarrow> int" where
  "int_of_uint x = (if x < 2 ^ 31 then int x else int x - 2 ^ 32)"

text \<open>
  The loop of \<^verbatim>\<open>readi\<close>. It returns \<^verbatim>\<open>tot\<close>, the bytes handed to \<^verbatim>\<open>either_copyout\<close> so far
  and the state. A failed copy sets \<^verbatim>\<open>tot\<close> to \<open>-1\<close>, which is \<open>2^32 - 1\<close> in the
  unsigned variable.
\<close>

function readi_loop ::
  "fs \<Rightarrow> nat \<Rightarrow> bool \<Rightarrow> (nat \<Rightarrow> nat \<Rightarrow> bool) \<Rightarrow> nat \<Rightarrow> nat \<Rightarrow> nat \<Rightarrow> nat \<Rightarrow> char list
     \<Rightarrow> kfault + (nat \<times> char list \<times> fs)" where
  "readi_loop s i user_dst cp dst off n tot out =
     (if tot < n then
        (case bmap s i (off div BSIZE) of
           Inl e \<Rightarrow> Inl e
         | Inr (addr, s1) \<Rightarrow>
             if addr = 0 then Inr (tot, out, s1)
             else let m = min (n - tot) (BSIZE - off mod BSIZE) in
               if \<not> either_copyout user_dst cp dst m then Inr (2 ^ 32 - 1, out, s1)
               else readi_loop s1 i user_dst cp (dst + m) (off + m) n (tot + m)
                      (out @ map (\<lambda>j. disk s1 addr (off mod BSIZE + j)) [0..<m]))
      else Inr (tot, out, s))"
  by pat_completeness auto
termination
proof (relation "measure (\<lambda>(s, i, user_dst, cp, dst, off, n, tot, out). n - tot)")
  show "wf (measure (\<lambda>(s, i, user_dst, cp, dst, off, n, tot, out). n - tot))" by simp
next
  fix s :: fs and i user_dst cp dst off n tot and out :: "char list" and x2 x y s1 m
  assume "tot < n" and "m = min (n - tot) (BSIZE - off mod BSIZE)"
  moreover have "0 < BSIZE - off mod BSIZE" by (simp add: BSIZE_def)
  ultimately have "0 < m" by simp
  with \<open>tot < n\<close> show "((s1, i, user_dst, cp, dst + m, off + m, n, tot + m,
        out @ map (\<lambda>j. disk s1 y (off mod BSIZE + j)) [0..<m]),
       (s, i, user_dst, cp, dst, off, n, tot, out))
      \<in> measure (\<lambda>(s, i, user_dst, cp, dst, off, n, tot, out). n - tot)"
    by simp
qed

definition readi ::
  "fs \<Rightarrow> nat \<Rightarrow> bool \<Rightarrow> (nat \<Rightarrow> nat \<Rightarrow> bool) \<Rightarrow> nat \<Rightarrow> nat \<Rightarrow> nat
     \<Rightarrow> kfault + (int \<times> char list \<times> fs)" where
  "readi s i user_dst cp dst off n =
     (if off > isize (inodes s i) \<or> uadd off n < off then Inr (0, [], s)
      else let n1 = (if uadd off n > isize (inodes s i) then isize (inodes s i) - off else n) in
        (case readi_loop s i user_dst cp dst off n1 0 [] of
           Inl e \<Rightarrow> Inl e
         | Inr (tot, out, s1) \<Rightarrow>
             Inr (int_of_uint tot, out, if tot > 0 then iupdatatime s1 i else s1)))"

declare readi_loop.simps [simp del]

subsection \<open>The block map as the specification words it\<close>

text \<open>
  Where logical block \<open>b\<close> lives: a direct slot, an entry of the single indirect block, a
  path through the double indirect tree or a path through the triple indirect tree; the
  indices are the successive remainders and quotients of the residual index by \<open>N\<close>.
\<close>

datatype slot = Direct nat | Single nat | Double nat nat | Triple nat nat nat

definition locate :: "nat \<Rightarrow> slot option" where
  "locate b =
     (let N = NINDIRECT in
      if b < NDIRECT then Some (Direct b)
      else if b < NDIRECT + N then Some (Single (b - NDIRECT))
      else if b < NDIRECT + N + N * N then
        (let r = b - NDIRECT - N in Some (Double (r div N) (r mod N)))
      else if b < NDIRECT + N + N * N + N * N * N then
        (let r = b - NDIRECT - N - N * N in
         Some (Triple ((r div N) div N) ((r div N) mod N) (r mod N)))
      else None)"

text \<open>The block number found by following a slot; 0 when a pointer on the way is 0.\<close>

fun follow :: "fs \<Rightarrow> nat \<Rightarrow> slot \<Rightarrow> nat" where
  "follow s i (Direct k) = addrs (inodes s i) k"
| "follow s i (Single a) =
     (let p = addrs (inodes s i) NDIRECT in if p = 0 then 0 else uint_at (disk s p) a)"
| "follow s i (Double a b) =
     (let p = addrs (inodes s i) (NDIRECT + 1) in
      if p = 0 then 0
      else let q = uint_at (disk s p) a in if q = 0 then 0 else uint_at (disk s q) b)"
| "follow s i (Triple a b c) =
     (let p = addrs (inodes s i) (NDIRECT + 2) in
      if p = 0 then 0
      else let q = uint_at (disk s p) a in
        if q = 0 then 0
        else let r = uint_at (disk s q) b in if r = 0 then 0 else uint_at (disk s r) c)"

lemma bmap_slot_mapped: "addrs (inodes s i) k \<noteq> 0 \<Longrightarrow> bmap_slot s i k = (addrs (inodes s i) k, s)"
  by (simp add: bmap_slot_def)

lemma bmap_entry_mapped:
  "uint_at (disk s blk) idx \<noteq> 0 \<Longrightarrow> bmap_entry s blk idx = (uint_at (disk s blk) idx, s)"
  by (simp add: bmap_entry_def)

lemma triple_index: "(r mod (N * N)) div N = (r div N) mod (N::nat)"
  by (cases "N = 0") (simp_all add: mod_mult2_eq)


lemma locate_None: "locate bn = None \<longleftrightarrow> MAXFILE \<le> bn"
  by (auto simp: locate_def Let_def MAXFILE_def NINDIRECT2_def NINDIRECT3_def)

lemma bmap_out_of_range: "MAXFILE \<le> bn \<Longrightarrow> bmap s i bn = Inl (Panic ''bmap: out of range'')"
  by (auto simp: bmap_def Let_def MAXFILE_def NINDIRECT2_def NINDIRECT3_def NINDIRECT_val NDIRECT_def)

lemma bmap_mapped:
  assumes loc: "locate bn = Some sl" and nz: "follow s i sl \<noteq> 0"
  shows "bmap s i bn = Inr (follow s i sl, s)"
proof -
  consider (d) "bn < NDIRECT"
    | (s1) "NDIRECT \<le> bn" "bn - NDIRECT < NINDIRECT"
    | (s2) "NDIRECT \<le> bn" "NINDIRECT \<le> bn - NDIRECT" "bn - NDIRECT - NINDIRECT < NINDIRECT2"
    | (s3) "NDIRECT \<le> bn" "NINDIRECT \<le> bn - NDIRECT"
        "NINDIRECT2 \<le> bn - NDIRECT - NINDIRECT"
        "bn - NDIRECT - NINDIRECT - NINDIRECT2 < NINDIRECT3"
    | (out) "MAXFILE \<le> bn"
    by (auto simp: MAXFILE_def) linarith
  then show ?thesis
  proof cases
    case d
    with loc have sl: "sl = Direct bn" by (simp add: locate_def Let_def)
    with nz d show ?thesis by (simp add: bmap_def bmap_slot_mapped)
  next
    case s1
    then have c: "\<not> bn < NDIRECT" "bn < NDIRECT + NINDIRECT" by arith+
    with loc have sl: "sl = Single (bn - NDIRECT)"
      by (simp add: locate_def Let_def)
    from nz sl have p: "addrs (inodes s i) NDIRECT \<noteq> 0"
      and e: "uint_at (disk s (addrs (inodes s i) NDIRECT)) (bn - NDIRECT) \<noteq> 0"
      by (auto simp: Let_def split: if_splits)
    from s1 p e sl show ?thesis
      by (simp add: bmap_def Let_def bmap_slot_mapped bmap_entry_mapped)
  next
    case s2
    let ?r = "bn - NDIRECT - NINDIRECT"
    from s2 have c: "\<not> bn < NDIRECT" "\<not> bn < NDIRECT + NINDIRECT"
        "bn < NDIRECT + NINDIRECT + NINDIRECT * NINDIRECT"
      unfolding NINDIRECT2_def by arith+
    with loc have sl: "sl = Double (?r div NINDIRECT) (?r mod NINDIRECT)"
      by (simp add: locate_def Let_def)
    let ?p = "addrs (inodes s i) (NDIRECT + 1)"
    let ?q = "uint_at (disk s ?p) (?r div NINDIRECT)"
    from nz sl have p: "?p \<noteq> 0" and q: "?q \<noteq> 0"
      and e: "uint_at (disk s ?q) (?r mod NINDIRECT) \<noteq> 0"
      by (auto simp: Let_def split: if_splits)
    from s2 p q e sl show ?thesis
      by (simp add: bmap_def Let_def bmap_slot_mapped bmap_entry_mapped)
  next
    case s3
    let ?r = "bn - NDIRECT - NINDIRECT - NINDIRECT2"
    from s3 have c: "\<not> bn < NDIRECT" "\<not> bn < NDIRECT + NINDIRECT"
        "\<not> bn < NDIRECT + NINDIRECT + NINDIRECT * NINDIRECT"
        "bn < NDIRECT + NINDIRECT + NINDIRECT * NINDIRECT + NINDIRECT * NINDIRECT * NINDIRECT"
      unfolding NINDIRECT2_def NINDIRECT3_def by arith+
    with loc have sl: "sl = Triple ((?r div NINDIRECT) div NINDIRECT)
        ((?r div NINDIRECT) mod NINDIRECT) (?r mod NINDIRECT)"
      by (simp add: locate_def Let_def NINDIRECT2_def)
    have i1: "\<And>r. r div NINDIRECT2 = (r div NINDIRECT) div NINDIRECT"
      by (simp add: NINDIRECT2_def div_mult2_eq)
    have i2: "\<And>r. (r mod NINDIRECT2) div NINDIRECT = (r div NINDIRECT) mod NINDIRECT"
      by (simp add: NINDIRECT2_def triple_index)
    let ?p = "addrs (inodes s i) (NDIRECT + 2)"
    let ?q = "uint_at (disk s ?p) ((?r div NINDIRECT) div NINDIRECT)"
    let ?t = "uint_at (disk s ?q) ((?r div NINDIRECT) mod NINDIRECT)"
    from nz sl have p: "?p \<noteq> 0" and q: "?q \<noteq> 0" and t: "?t \<noteq> 0"
      and e: "uint_at (disk s ?t) (?r mod NINDIRECT) \<noteq> 0"
      by (auto simp: Let_def split: if_splits)
    from s3 p q t e sl show ?thesis
      by (simp add: bmap_def Let_def i1 i2 bmap_slot_mapped bmap_entry_mapped)
  next
    case out
    with loc show ?thesis by (simp add: locate_None [symmetric])
  qed
qed










text \<open>
  C4. With \<open>N = BSIZE/4 = 1024\<close>: \<open>bmap\<close> finds logical block \<open>b\<close> in direct slot \<open>b\<close>
  when \<open>b < 10\<close>; at entry \<open>b - 10\<close> of the single indirect block when \<open>b < 10 + N\<close>;
  through the double indirect tree, at entries \<open>r div N\<close> and \<open>r mod N\<close> of the residual
  \<open>r\<close>, when \<open>b < 10 + N + N\<^sup>2\<close>; and through the triple indirect tree, at the
  successive quotients and remainders by \<open>N\<close>, up to the capacity
  \<open>10 + N + N\<^sup>2 + N\<^sup>3\<close>, beyond which it panics. In each case it returns the block
  number stored there and changes nothing.
\<close>

theorem bmap_thresholds:
  "(bn < 10 \<and> follow s i (Direct bn) \<noteq> 0 \<longrightarrow>
      bmap s i bn = Inr (follow s i (Direct bn), s)) \<and>
   (10 \<le> bn \<and> bn < 10 + 1024 \<and> follow s i (Single (bn - 10)) \<noteq> 0 \<longrightarrow>
      bmap s i bn = Inr (follow s i (Single (bn - 10)), s)) \<and>
   (10 + 1024 \<le> bn \<and> bn < 10 + 1024 + 1024 * 1024 \<and>
    follow s i (Double ((bn - 1034) div 1024) ((bn - 1034) mod 1024)) \<noteq> 0 \<longrightarrow>
      bmap s i bn =
        Inr (follow s i (Double ((bn - 1034) div 1024) ((bn - 1034) mod 1024)), s)) \<and>
   (10 + 1024 + 1024 * 1024 \<le> bn \<and> bn < 10 + 1024 + 1024 * 1024 + 1024 * 1024 * 1024 \<and>
    follow s i (Triple ((bn - 1049610) div 1024 div 1024) ((bn - 1049610) div 1024 mod 1024)
                  ((bn - 1049610) mod 1024)) \<noteq> 0 \<longrightarrow>
      bmap s i bn =
        Inr (follow s i (Triple ((bn - 1049610) div 1024 div 1024)
               ((bn - 1049610) div 1024 mod 1024) ((bn - 1049610) mod 1024)), s)) \<and>
   (10 + 1024 + 1024 * 1024 + 1024 * 1024 * 1024 \<le> bn \<longrightarrow>
      bmap s i bn = Inl (Panic ''bmap: out of range'')) \<and>
   NINDIRECT = BSIZE div 4 \<and> NINDIRECT = 1024 \<and>
   MAXFILE = 10 + 1024 + 1024 * 1024 + 1024 * 1024 * 1024"
proof -
  have d: "bn < 10 \<Longrightarrow> locate bn = Some (Direct bn)"
    by (simp add: locate_def NDIRECT_def)
  have s1: "10 \<le> bn \<Longrightarrow> bn < 10 + 1024 \<Longrightarrow> locate bn = Some (Single (bn - 10))"
    by (simp add: locate_def NDIRECT_def NINDIRECT_val)
  have s2: "10 + 1024 \<le> bn \<Longrightarrow> bn < 10 + 1024 + 1024 * 1024 \<Longrightarrow>
      locate bn = Some (Double ((bn - 1034) div 1024) ((bn - 1034) mod 1024))"
    by (simp add: locate_def NDIRECT_def NINDIRECT_val Let_def)
  have s3: "10 + 1024 + 1024 * 1024 \<le> bn \<Longrightarrow>
      bn < 10 + 1024 + 1024 * 1024 + 1024 * 1024 * 1024 \<Longrightarrow>
      locate bn = Some (Triple ((bn - 1049610) div 1024 div 1024)
         ((bn - 1049610) div 1024 mod 1024) ((bn - 1049610) mod 1024))"
    by (simp add: locate_def NDIRECT_def NINDIRECT_val Let_def)
  have m: "MAXFILE = 10 + 1024 + 1024 * 1024 + 1024 * 1024 * 1024"
    by (simp add: MAXFILE_def NINDIRECT2_def NINDIRECT3_def NINDIRECT_val NDIRECT_def)
  have out: "10 + 1024 + 1024 * 1024 + 1024 * 1024 * 1024 \<le> bn \<Longrightarrow>
      bmap s i bn = Inl (Panic ''bmap: out of range'')"
    using bmap_out_of_range [of bn s i] m by simp
  have n: "NINDIRECT = BSIZE div 4" by (simp add: NINDIRECT_val BSIZE_def)
  show ?thesis
    using bmap_mapped [OF d] bmap_mapped [OF s1] bmap_mapped [OF s2] bmap_mapped [OF s3] out
      n m NINDIRECT_val
    by blast
qed


subsection \<open>Examples\<close>

definition empty_inode :: inode where
  "empty_inode = \<lparr>dev = ROOTDEV, inum = 0, type = 0, major = 0, minor = 0, nlink = 0,
     isize = 0, addrs = (\<lambda>_. 0), mode = 0, uid = 0, atime = 0, mtime = 0, ctime = 0,
     blocks = 0\<rparr>"












text \<open>A file with one mapped block in each of the four regions.\<close>

definition tree_fs :: fs where
  "tree_fs = \<lparr>sb_size = 64, sb_ninodes = 16, sb_inodestart = 2, bitmap = (\<lambda>b. b < 60),
     disk = (\<lambda>_. zero_block)
       (41 := uint_upd zero_block 5 50,
        42 := uint_upd zero_block 2 44, 44 := uint_upd zero_block 7 51,
        43 := uint_upd zero_block 1 45, 45 := uint_upd zero_block 2 46,
        46 := uint_upd zero_block 3 52),
     inodes = (\<lambda>_. empty_inode)(1 := empty_inode\<lparr>inum := 1, type := T_FILE, nlink := 1,
        isize := 4096, addrs := (\<lambda>_. 0)(3 := 40, 10 := 41, 11 := 42, 12 := 43)\<rparr>),
     atime_clock = 0\<rparr>"

lemma uint_at_upd_small: "v < 256 \<Longrightarrow> uint_at (uint_upd b i v) i = v"
  by (simp add: uint_at_def uint_upd_def)


theorem bmap_thresholds_witness:
  "bmap tree_fs 1 3 = Inr (40, tree_fs) \<and> bmap tree_fs 1 15 = Inr (50, tree_fs) \<and>
   bmap tree_fs 1 3089 = Inr (51, tree_fs) \<and> bmap tree_fs 1 2100237 = Inr (52, tree_fs) \<and>
   bmap tree_fs 1 1074791434 = Inl (Panic ''bmap: out of range'')"
proof -
  have f: "follow tree_fs 1 (Direct 3) = 40" "follow tree_fs 1 (Single 5) = 50"
    "follow tree_fs 1 (Double 2 7) = 51" "follow tree_fs 1 (Triple 1 2 3) = 52"
    by (simp_all add: tree_fs_def empty_inode_def NDIRECT_def uint_at_upd_small Let_def)
  note c1 = conjunct1 and c2 = conjunct2
  have "bmap tree_fs 1 3 = Inr (40, tree_fs)"
    using bmap_thresholds [of 3 tree_fs 1, THEN c1] f(1) by simp
  moreover have "bmap tree_fs 1 15 = Inr (50, tree_fs)"
    using bmap_thresholds [of 15 tree_fs 1, THEN c2, THEN c1] f(2) by simp
  moreover have "bmap tree_fs 1 3089 = Inr (51, tree_fs)"
    using bmap_thresholds [of 3089 tree_fs 1, THEN c2, THEN c2, THEN c1] f(3) by simp
  moreover have "bmap tree_fs 1 2100237 = Inr (52, tree_fs)"
    using bmap_thresholds [of 2100237 tree_fs 1, THEN c2, THEN c2, THEN c2, THEN c1] f(4)
    by simp
  moreover have "bmap tree_fs 1 1074791434 = Inl (Panic ''bmap: out of range'')"
    using bmap_thresholds [of 1074791434 tree_fs 1, THEN c2, THEN c2, THEN c2, THEN c2, THEN c1]
    by simp
  ultimately show ?thesis by blast
qed

subsection \<open>ialloc\<close>

definition IBLOCK :: "nat \<Rightarrow> fs \<Rightarrow> nat" where
  "IBLOCK i s = i div IPB + sb_inodestart s"

text \<open>
  The dinode \<^verbatim>\<open>ialloc\<close> writes: all zero but for the type and the default mode 0644.
\<close>

definition new_dinode :: "nat \<Rightarrow> nat \<Rightarrow> int \<Rightarrow> inode" where
  "new_dinode d i t = \<lparr>dev = d, inum = i, type = t, major = 0, minor = 0, nlink = 0,
     isize = 0, addrs = (\<lambda>_. 0), mode = 420, uid = 0, atime = 0, mtime = 0, ctime = 0,
     blocks = 0\<rparr>"

text \<open>
  The scan of \<^verbatim>\<open>ialloc\<close> from inode number \<open>i\<close>. The result is the inode number of the
  handle \<^verbatim>\<open>iget\<close> returns (\<open>Inr\<close>) or the code \<open>e\<close> of the error pointer
  \<^verbatim>\<open>ERR_PTR_CODE(-e)\<close> (\<open>Inl\<close>). \<open>bread_ok b\<close> tells whether reading block \<open>b\<close> gives a
  buffer.
\<close>

function ialloc_scan :: "(nat \<Rightarrow> bool) \<Rightarrow> fs \<Rightarrow> nat \<Rightarrow> int \<Rightarrow> nat \<Rightarrow> (int + nat) \<times> fs" where
  "ialloc_scan bread_ok s d t i =
     (if i < sb_ninodes s then
        (if \<not> bread_ok (IBLOCK i s) then (Inl EIO, s)
         else if type (inodes s i) = 0
           then (Inr i, s\<lparr>inodes := (inodes s)(i := new_dinode d i t)\<rparr>)
           else ialloc_scan bread_ok s d t (Suc i))
      else (Inl EFS_INODE_FULL, s))"
  by pat_completeness auto
termination
  by (relation "measure (\<lambda>(bread_ok, s, d, t, i). sb_ninodes s - i)") auto

declare ialloc_scan.simps [simp del]

definition ialloc :: "(nat \<Rightarrow> bool) \<Rightarrow> fs \<Rightarrow> nat \<Rightarrow> int \<Rightarrow> (int + nat) \<times> fs" where
  "ialloc bread_ok s d t =
     (if t \<noteq> T_FILE \<and> t \<noteq> T_DIR \<and> t \<noteq> T_DEVICE then (Inl EINVAL, s)
      else ialloc_scan bread_ok s d t 1)"

text \<open>
  C2 fails on the code. \<open>ialloc\<close> accepts only the types file, dir and device: for every
  device and every state, a request for a symlink inode, which is what \<^verbatim>\<open>sys_symlink\<close>
  makes, is rejected with \<open>EINVAL\<close> and nothing is allocated.
\<close>

theorem ialloc_symlink_rejected: "ialloc bread_ok s d T_SYMLINK = (Inl EINVAL, s)"
  by (simp add: ialloc_def T_SYMLINK_def T_FILE_def T_DIR_def T_DEVICE_def)

lemma ialloc_EINVAL_iff:
  "fst (ialloc bread_ok s d t) = Inl EINVAL \<longleftrightarrow> t \<noteq> T_FILE \<and> t \<noteq> T_DIR \<and> t \<noteq> T_DEVICE"
proof -
  have "fst (ialloc_scan bread_ok s d t i) \<noteq> Inl EINVAL" for i
    by (induction bread_ok s d t i rule: ialloc_scan.induct)
      (subst ialloc_scan.simps, simp add: EIO_def EINVAL_def EFS_INODE_FULL_def)
  then show ?thesis by (simp add: ialloc_def)
qed

section \<open>Directories and path resolution (kernel/fs.c)\<close>

subsection \<open>Frame lemmas: what a read leaves alone\<close>

lemma balloc_inodes: "balloc s = (a, s') \<Longrightarrow> inodes s' = inodes s \<and> sb_ninodes s' = sb_ninodes s"
  by (auto simp: balloc_def split: option.splits)

lemma bmap_slot_isize:
  "bmap_slot s i k = (a, s') \<Longrightarrow> isize (inodes s' j) = isize (inodes s j) \<and> type (inodes s' j) = type (inodes s j)"
  by (auto simp: bmap_slot_def Let_def split: if_splits prod.splits dest!: balloc_inodes)

lemma bmap_entry_isize:
  "bmap_entry s b k = (a, s') \<Longrightarrow> isize (inodes s' j) = isize (inodes s j) \<and> type (inodes s' j) = type (inodes s j)"
  by (auto simp: bmap_entry_def Let_def split: if_splits prod.splits dest!: balloc_inodes)

lemma bmap_isize:
  assumes "bmap s i bn = Inr (a, s')"
  shows "isize (inodes s' j) = isize (inodes s j) \<and> type (inodes s' j) = type (inodes s j)"
  using assms unfolding bmap_def Let_def
  by (auto split: if_splits prod.splits dest!: bmap_slot_isize [where j = j] bmap_entry_isize [where j = j])


lemma readi_loop_isize:
  "readi_loop s i ud cp dst off n tot out = Inr (tot', out', s') \<Longrightarrow>
   isize (inodes s' j) = isize (inodes s j) \<and> type (inodes s' j) = type (inodes s j)"
proof (induction s i ud cp dst off n tot out rule: readi_loop.induct)
  case (1 s i user_dst cp dst off n tot out)
  note IH = 1(1) and res = 1(2)
  show ?case
  proof (cases "tot < n")
    case False
    with res show ?thesis by (simp add: readi_loop.simps)
  next
    case True
    show ?thesis
    proof (cases "bmap s i (off div BSIZE)")
      case (Inl e)
      with True res show ?thesis by (simp add: readi_loop.simps)
    next
      case (Inr p)
      obtain addr s1 where p: "p = (addr, s1)" by (cases p)
      note b = Inr [unfolded p]
      note f = bmap_isize [OF b, of j]
      let ?m = "min (n - tot) (BSIZE - off mod BSIZE)"
      show ?thesis
      proof (cases "addr = 0 \<or> \<not> either_copyout user_dst cp dst ?m")
        case True
        with \<open>tot < n\<close> b res f show ?thesis
          by (auto simp: readi_loop.simps [of s] Let_def split: if_splits)
      next
        case False
        with \<open>tot < n\<close> b res have
          "readi_loop s1 i user_dst cp (dst + ?m) (off + ?m) n (tot + ?m)
             (out @ map (\<lambda>j. disk s1 addr (off mod BSIZE + j)) [0..<?m]) = Inr (tot', out', s')"
          by (simp add: readi_loop.simps [of s] Let_def)
        from IH [OF \<open>tot < n\<close> b refl _ refl _ this] False f show ?thesis by simp
      qed
    qed
  qed
qed

lemma readi_isize:
  assumes "readi s i ud cp dst off n = Inr (r, out, s')"
  shows "isize (inodes s' j) = isize (inodes s j) \<and> type (inodes s' j) = type (inodes s j)"
proof (cases "off > isize (inodes s i) \<or> uadd off n < off")
  case True
  with assms show ?thesis by (simp add: readi_def)
next
  case False
  define n1 where "n1 = (if uadd off n > isize (inodes s i) then isize (inodes s i) - off else n)"
  from assms False obtain tot out1 s1 where
    l: "readi_loop s i ud cp dst off n1 0 [] = Inr (tot, out1, s1)"
    and s': "s' = (if tot > 0 then iupdatatime s1 i else s1)"
    by (auto simp: readi_def n1_def [symmetric] Let_def split: sum.splits)
  from readi_loop_isize [OF l, of j] s' show ?thesis
    by (auto simp: iupdatatime_def Let_def)
qed

subsection \<open>Directory lookup\<close>

text \<open>
  Modelled from the spec: \<^verbatim>\<open>string.c\<close> is not among the sources; \<open>strncmp\<close> is the C library
  function: it compares at most \<open>n\<close> bytes and stops at the first difference or at a NUL.
  A buffer is the list of its bytes; the code never reads past the end of the buffers it
  compares (a name of fewer than \<open>DIRSIZ\<close> bytes carries its NUL), and such a read gives
  NUL here.
\<close>

definition cbyte :: "string \<Rightarrow> char" where
  "cbyte p = (case p of [] \<Rightarrow> NUL | c # _ \<Rightarrow> c)"

fun strncmp :: "string \<Rightarrow> string \<Rightarrow> nat \<Rightarrow> int" where
  "strncmp p q 0 = 0"
| "strncmp p q (Suc n) =
     (if cbyte p \<noteq> NUL \<and> cbyte p = cbyte q then strncmp (tl p) (tl q) n
      else int (of_char (cbyte p)) - int (of_char (cbyte q)))"

definition namecmp :: "string \<Rightarrow> string \<Rightarrow> int" where
  "namecmp s t = strncmp s t DIRSIZ"

text \<open>
  The fields of a \<^verbatim>\<open>struct dirent\<close> read into a buffer of \<open>sizeof_dirent\<close> bytes.
  \<open>dirlookup\<close> is modelled as path resolution calls it, with a null \<^verbatim>\<open>poff\<close>: it returns
  the inode number of the entry found (the handle \<^verbatim>\<open>iget\<close> gives) or \<open>None\<close>.
\<close>

definition de_inum :: "char list \<Rightarrow> nat" where
  "de_inum de = of_char (de ! 0) + 256 * of_char (de ! 1)"

definition de_name :: "char list \<Rightarrow> string" where
  "de_name de = take DIRSIZ (drop 2 de)"

function dirlookup_loop :: "fs \<Rightarrow> nat \<Rightarrow> string \<Rightarrow> nat \<Rightarrow> kfault + (nat option \<times> fs)" where
  "dirlookup_loop s dp nm off =
     (if off < isize (inodes s dp) then
        (case readi s dp False (\<lambda>_ _. True) 0 off sizeof_dirent of
           Inl e \<Rightarrow> Inl e
         | Inr (r, de, s1) \<Rightarrow>
             if r \<noteq> int sizeof_dirent then Inl (Panic ''dirlookup read'')
             else if de_inum de = 0 then dirlookup_loop s1 dp nm (off + sizeof_dirent)
             else if namecmp nm (de_name de) = 0 then Inr (Some (de_inum de), s1)
             else dirlookup_loop s1 dp nm (off + sizeof_dirent))
      else Inr (None, s))"
  by pat_completeness auto
termination
proof (relation "measure (\<lambda>(s, dp, nm, off). isize (inodes s dp) - off)")
  show "wf (measure (\<lambda>(s, dp, nm, off). isize (inodes s dp) - off))" by simp
next
  fix s dp nm off x2 r y de s1
  assume "off < isize (inodes s dp)"
    and "readi s dp False (\<lambda>_ _. True) 0 off sizeof_dirent = Inr x2"
    and "(r, y) = x2" and "(de, s1) = y"
  then have "isize (inodes s1 dp) = isize (inodes s dp)"
    using readi_isize [of s dp False "\<lambda>_ _. True" 0 off sizeof_dirent r de s1 dp] by auto
  with \<open>off < isize (inodes s dp)\<close>
  show "((s1, dp, nm, off + sizeof_dirent), (s, dp, nm, off))
      \<in> measure (\<lambda>(s, dp, nm, off). isize (inodes s dp) - off)"
    by (simp add: sizeof_dirent_val)
next
  fix s dp nm off x2 r y de s1
  assume "off < isize (inodes s dp)"
    and "readi s dp False (\<lambda>_ _. True) 0 off sizeof_dirent = Inr x2"
    and "(r, y) = x2" and "(de, s1) = y"
  then have "isize (inodes s1 dp) = isize (inodes s dp)"
    using readi_isize [of s dp False "\<lambda>_ _. True" 0 off sizeof_dirent r de s1 dp] by auto
  with \<open>off < isize (inodes s dp)\<close>
  show "((s1, dp, nm, off + sizeof_dirent), (s, dp, nm, off))
      \<in> measure (\<lambda>(s, dp, nm, off). isize (inodes s dp) - off)"
    by (simp add: sizeof_dirent_val)
qed

declare dirlookup_loop.simps [simp del]

definition dirlookup :: "fs \<Rightarrow> nat \<Rightarrow> string \<Rightarrow> kfault + (nat option \<times> fs)" where
  "dirlookup s dp nm =
     (if type (inodes s dp) \<noteq> T_DIR then Inl (Panic ''dirlookup not DIR'')
      else dirlookup_loop s dp nm 0)"


subsection \<open>Paths\<close>

text \<open>
  A path is the list of the bytes of the C string before its terminating NUL.
  \<open>skipelem\<close> returns the rest of the path and the contents it leaves in the \<^verbatim>\<open>name\<close>
  buffer: an element of \<open>DIRSIZ\<close> bytes or more is cut to its first \<open>DIRSIZ\<close> bytes and
  gets no terminator; a shorter one is followed by a NUL.
\<close>

definition is_slash :: "char \<Rightarrow> bool" where
  "is_slash c = (c = CHR ''/'')"

definition skipelem :: "string \<Rightarrow> (string \<times> string) option" where
  "skipelem path =
     (let p1 = dropWhile is_slash path in
      if p1 = [] then None
      else let s = takeWhile (\<lambda>c. \<not> is_slash c) p1;
               p2 = dropWhile (\<lambda>c. \<not> is_slash c) p1;
               nm = (if length s \<ge> DIRSIZ then take DIRSIZ s else s @ [NUL])
           in Some (dropWhile is_slash p2, nm))"

lemma skipelem_shorter: "skipelem path = Some (rest, nm) \<Longrightarrow> length rest < length path"
proof -
  assume a: "skipelem path = Some (rest, nm)"
  let ?p1 = "dropWhile is_slash path"
  let ?p2 = "dropWhile (\<lambda>c. \<not> is_slash c) ?p1"
  from a have ne: "?p1 \<noteq> []" and r: "rest = dropWhile is_slash ?p2"
    by (auto simp: skipelem_def Let_def split: if_splits)
  from ne have "\<not> is_slash (hd ?p1)" using hd_dropWhile by blast
  with ne have "length ?p2 < length ?p1"
    by (cases ?p1) (auto simp: less_Suc_eq_le length_dropWhile_le)
  moreover have "length rest \<le> length ?p2" unfolding r by (rule length_dropWhile_le)
  moreover have "length ?p1 \<le> length path" by (rule length_dropWhile_le)
  ultimately show ?thesis by simp
qed

text \<open>The C string held in a buffer: its bytes up to the first NUL.\<close>

definition cstr :: "char list \<Rightarrow> string" where
  "cstr buf = takeWhile (\<lambda>c. c \<noteq> NUL) buf"

definition MAX_SYMLINK_DEPTH :: nat where "MAX_SYMLINK_DEPTH = 16"

text \<open>
  \<^verbatim>\<open>ilock\<close> panics when the inode it loads has type 0. Its other effects (the sleep-lock,
  the copy from the disk) and those of \<^verbatim>\<open>iunlock\<close>, \<^verbatim>\<open>iput\<close> and \<^verbatim>\<open>iget\<close> are not
  modelled: an inode handle is its inode number.
\<close>

definition ilock_panics :: "fs \<Rightarrow> nat \<Rightarrow> bool" where
  "ilock_panics s ip = (type (inodes s ip) = 0)"

text \<open>
  The inner loop of \<^verbatim>\<open>namex\<close>, which walks the target of a symbolic link from the root.
  The result is the inode reached (\<open>None\<close> when \<^verbatim>\<open>namex\<close> returns 0), the contents of
  \<^verbatim>\<open>name\<close> and the state.
\<close>

function symlink_walk ::
  "fs \<Rightarrow> nat \<Rightarrow> string \<Rightarrow> string \<Rightarrow> kfault + (nat option \<times> string \<times> fs)" where
  "symlink_walk s ip newpath nm0 =
     (case skipelem newpath of
        None \<Rightarrow> Inr (Some ip, nm0, s)
      | Some (rest, nm) \<Rightarrow>
          if ilock_panics s ip then Inl (Panic ''ilock: no type'')
          else if type (inodes s ip) \<noteq> T_DIR then Inr (None, nm, s)
          else (case dirlookup s ip nm of
              Inl e \<Rightarrow> Inl e
            | Inr (None, s1) \<Rightarrow> Inr (None, nm, s1)
            | Inr (Some next, s1) \<Rightarrow> symlink_walk s1 next rest nm))"
  by pat_completeness auto
termination
  by (relation "measure (\<lambda>(s, ip, newpath, nm0). length newpath)")
    (auto dest: skipelem_shorter)

declare symlink_walk.simps [simp del]

text \<open>
  The outer loop of \<^verbatim>\<open>namex\<close>. Writing \<^verbatim>\<open>symlink_target[ip->size]\<close> when the size is
  \<open>MAXPATH\<close> or more is outside the array, and a short read leaves bytes of the array
  unwritten before the terminator: both are undefined behaviour.
\<close>

function namex_loop ::
  "fs \<Rightarrow> bool \<Rightarrow> nat \<Rightarrow> string \<Rightarrow> string \<Rightarrow> nat \<Rightarrow> kfault + (nat option \<times> string \<times> fs)" where
  "namex_loop s nameiparent ip path nm0 symlink_depth =
     (case skipelem path of
        None \<Rightarrow> if nameiparent then Inr (None, nm0, s) else Inr (Some ip, nm0, s)
      | Some (rest, nm) \<Rightarrow>
          if ilock_panics s ip then Inl (Panic ''ilock: no type'')
          else if type (inodes s ip) \<noteq> T_DIR then Inr (None, nm, s)
          else if nameiparent \<and> rest = [] then Inr (Some ip, nm, s)
          else (case dirlookup s ip nm of
              Inl e \<Rightarrow> Inl e
            | Inr (None, s1) \<Rightarrow> Inr (None, nm, s1)
            | Inr (Some next, s1) \<Rightarrow>
                if ilock_panics s1 next then Inl (Panic ''ilock: no type'')
                else if type (inodes s1 next) = T_SYMLINK then
                  (if symlink_depth + 1 > MAX_SYMLINK_DEPTH then Inr (None, nm, s1)
                   else (case readi s1 next False (\<lambda>_ _. True) 0 0 MAXPATH of
                       Inl e \<Rightarrow> Inl e
                     | Inr (r, buf, s2) \<Rightarrow>
                         if r \<le> 0 then Inr (None, nm, s2)
                         else if isize (inodes s2 next) \<ge> MAXPATH
                           then Inl (Undefined ''symlink_target overflow'')
                         else if r < int (isize (inodes s2 next))
                           then Inl (Undefined ''symlink_target not initialised'')
                         else if cbyte buf = CHR ''/'' then
                           (case symlink_walk s2 ROOTINO (cstr buf) nm of
                              Inl e \<Rightarrow> Inl e
                            | Inr (None, nm1, s3) \<Rightarrow> Inr (None, nm1, s3)
                            | Inr (Some ip1, nm1, s3) \<Rightarrow>
                                namex_loop s3 nameiparent ip1 rest nm1 (symlink_depth + 1))
                         else Inr (None, nm, s2)))
                else namex_loop s1 nameiparent next rest nm symlink_depth))"
  by pat_completeness auto
termination
  by (relation "measure (\<lambda>(s, nameiparent, ip, path, nm0, symlink_depth). length path)")
    (auto dest: skipelem_shorter)

declare namex_loop.simps [simp del]

text \<open>\<open>cw\<close> is the inode of the current directory of the calling process (\<^verbatim>\<open>myproc()->cwd\<close>).\<close>

definition namex :: "fs \<Rightarrow> nat \<Rightarrow> string \<Rightarrow> bool \<Rightarrow> string \<Rightarrow> kfault + (nat option \<times> string \<times> fs)" where
  "namex s cw path nameiparent nm0 =
     (if path = [] then Inr (None, nm0, s)
      else namex_loop s nameiparent (if hd path = CHR ''/'' then ROOTINO else cw) path nm0 0)"

text \<open>\<open>namei\<close> returns the inode and the state; its \<^verbatim>\<open>name\<close> buffer is a local.\<close>

definition namei :: "fs \<Rightarrow> nat \<Rightarrow> string \<Rightarrow> kfault + (nat option \<times> fs)" where
  "namei s cw path = map_sum id (\<lambda>(r, nm, s'). (r, s')) (namex s cw path False [])"

definition nameiparent :: "fs \<Rightarrow> nat \<Rightarrow> string \<Rightarrow> kfault + (nat option \<times> string \<times> fs)" where
  "nameiparent s cw path = namex s cw path True []"

text \<open>
  The bound on followed links: once \<open>MAX_SYMLINK_DEPTH\<close> links have been followed, meeting
  another symbolic link makes \<open>namex\<close> return 0.
\<close>

lemma namex_loop_depth_bound:
  assumes "skipelem path = Some (rest, nm)"
    and "type (inodes s ip) = T_DIR" and "\<not> (par \<and> rest = [])"
    and "dirlookup s ip nm = Inr (Some next, s1)"
    and "type (inodes s1 next) = T_SYMLINK"
    and "MAX_SYMLINK_DEPTH \<le> d"
  shows "namex_loop s par ip path nm0 d = Inr (None, nm, s1)"
  using assms
  by (subst namex_loop.simps)
    (auto simp: ilock_panics_def T_DIR_def T_SYMLINK_def)

subsection \<open>Evaluating reads and lookups\<close>

lemma iupdatatime_fields [simp]:
  "disk (iupdatatime s i) = disk s" "bitmap (iupdatatime s i) = bitmap s"
  "sb_size (iupdatatime s i) = sb_size s"
  "isize (inodes (iupdatatime s i) j) = isize (inodes s j)"
  "type (inodes (iupdatatime s i) j) = type (inodes s j)"
  "addrs (inodes (iupdatatime s i) j) = addrs (inodes s j)"
  by (simp_all add: iupdatatime_def Let_def)

text \<open>A read that lies within the file and within one mapped direct block.\<close>

lemma readi_one_block:
  assumes inside: "off + n \<le> isize (inodes s i)" and pos: "0 < n"
    and one: "off mod BSIZE + n \<le> BSIZE" and direct: "off div BSIZE < NDIRECT"
    and mapped: "addrs (inodes s i) (off div BSIZE) = a" "a \<noteq> 0"
    and small: "off + n < 2 ^ 31"
  shows "readi s i False cp dst off n =
    Inr (int n, map (\<lambda>j. disk s a (off mod BSIZE + j)) [0..<n], iupdatatime s i)"
proof -
  have b: "bmap s i (off div BSIZE) = Inr (a, s)"
    using direct mapped by (simp add: bmap_def bmap_slot_mapped)
  have m: "min (n - 0) (BSIZE - off mod BSIZE) = n" using one by simp
  have fin: "readi_loop s i False cp (dst + n) (off + n) n n out = Inr (n, out, s)" for out
    by (subst readi_loop.simps) simp
  have l: "readi_loop s i False cp dst off n 0 [] =
      Inr (n, map (\<lambda>j. disk s a (off mod BSIZE + j)) [0..<n], s)"
    apply (subst readi_loop.simps)
    apply (simp only: b m)
    apply (simp add: pos mapped either_copyout_def Let_def fin)
    done
  have u: "uadd off n = off + n" using small by (simp add: uadd_def)
  have i: "int_of_uint n = int n" using small by (simp add: int_of_uint_def)
  show ?thesis using inside pos by (simp add: readi_def u l i)
qed

lemma dirlookup_loop_step:
  "off < isize (inodes s dp) \<Longrightarrow>
   dirlookup_loop s dp nm off =
     (case readi s dp False (\<lambda>_ _. True) 0 off sizeof_dirent of
        Inl e \<Rightarrow> Inl e
      | Inr (r, de, s1) \<Rightarrow>
          if r \<noteq> int sizeof_dirent then Inl (Panic ''dirlookup read'')
          else if de_inum de = 0 then dirlookup_loop s1 dp nm (off + sizeof_dirent)
          else if namecmp nm (de_name de) = 0 then Inr (Some (de_inum de), s1)
          else dirlookup_loop s1 dp nm (off + sizeof_dirent))"
  by (subst dirlookup_loop.simps) simp

lemma dirlookup_loop_end:
  "\<not> off < isize (inodes s dp) \<Longrightarrow> dirlookup_loop s dp nm off = Inr (None, s)"
  by (subst dirlookup_loop.simps) simp

lemma strncmp_numeral [simp]:
  "strncmp p q (numeral k) =
     (if cbyte p \<noteq> NUL \<and> cbyte p = cbyte q then strncmp (tl p) (tl q) (pred_numeral k)
      else int (of_char (cbyte p)) - int (of_char (cbyte q)))"
  by (simp add: numeral_eq_Suc)

text \<open>A block holding the given bytes, and the bytes of a directory entry.\<close>

definition block_of :: "char list \<Rightarrow> block" where
  "block_of xs = (\<lambda>j. if j < length xs then xs ! j else NUL)"

definition dirent_bytes :: "nat \<Rightarrow> string \<Rightarrow> char list" where
  "dirent_bytes i nm = [char_of i, char_of (i div 256)] @ nm @ replicate (DIRSIZ - length nm) NUL"

text \<open>
  The root directory with two cross-linked symbolic links: \<^verbatim>\<open>/link1\<close> (inode 2) has the
  target \<^verbatim>\<open>/link2\<close> and \<^verbatim>\<open>/link2\<close> (inode 3) has the target \<^verbatim>\<open>/link1\<close>.
\<close>

definition loop_fs :: fs where
  "loop_fs = \<lparr>sb_size = 16, sb_ninodes = 16, sb_inodestart = 2, bitmap = (\<lambda>b. b < 13),
     disk = (\<lambda>_. zero_block)
       (10 := block_of (dirent_bytes 2 ''link1'' @ dirent_bytes 3 ''link2''),
        11 := block_of ''/link2'', 12 := block_of ''/link1''),
     inodes = (\<lambda>_. empty_inode)
       (1 := empty_inode\<lparr>inum := 1, type := T_DIR, nlink := 1, isize := 128,
               addrs := (\<lambda>_. 0)(0 := 10)\<rparr>,
        2 := empty_inode\<lparr>inum := 2, type := T_SYMLINK, nlink := 1, isize := 6,
               addrs := (\<lambda>_. 0)(0 := 11)\<rparr>,
        3 := empty_inode\<lparr>inum := 3, type := T_SYMLINK, nlink := 1, isize := 6,
               addrs := (\<lambda>_. 0)(0 := 12)\<rparr>),
     atime_clock = 0\<rparr>"





lemma block_of_slice:
  "k + n \<le> length xs \<Longrightarrow> map (\<lambda>j. block_of xs (k + j)) [0..<n] = take n (drop k xs)"
  by (rule nth_equalityI) (simp_all add: block_of_def)

lemma block_of_prefix: "n \<le> length xs \<Longrightarrow> map (block_of xs) [0..<n] = take n xs"
  by (rule nth_equalityI) (simp_all add: block_of_def)

lemma dirlookup_loop_hit:
  assumes "off < isize (inodes s dp)"
    and "readi s dp False (\<lambda>_ _. True) 0 off sizeof_dirent = Inr (int sizeof_dirent, de, s1)"
    and "de_inum de \<noteq> 0" and "namecmp nm (de_name de) = 0"
  shows "dirlookup_loop s dp nm off = Inr (Some (de_inum de), s1)"
  using assms by (subst dirlookup_loop.simps) simp

lemma dirlookup_loop_miss:
  assumes "off < isize (inodes s dp)"
    and "readi s dp False (\<lambda>_ _. True) 0 off sizeof_dirent = Inr (int sizeof_dirent, de, s1)"
    and "de_inum de = 0 \<or> namecmp nm (de_name de) \<noteq> 0"
  shows "dirlookup_loop s dp nm off = dirlookup_loop s1 dp nm (off + sizeof_dirent)"
  using assms by (subst dirlookup_loop.simps) auto

lemma de_inum_bytes: "i < 65536 \<Longrightarrow> de_inum (dirent_bytes i nm) = i"
  by (simp add: de_inum_def dirent_bytes_def)

lemma de_name_bytes:
  "length nm \<le> DIRSIZ \<Longrightarrow> de_name (dirent_bytes i nm) = nm @ replicate (DIRSIZ - length nm) NUL"
  by (simp add: de_name_def dirent_bytes_def)

lemma length_dirent_bytes: "length nm \<le> DIRSIZ \<Longrightarrow> length (dirent_bytes i nm) = sizeof_dirent"
  by (simp add: dirent_bytes_def sizeof_dirent_val DIRSIZ_def)

lemma strncmp_same:
  "NUL \<notin> set nm \<Longrightarrow> strncmp (nm @ NUL # r1) (nm @ NUL # r2) n = 0"
proof (induction nm arbitrary: n)
  case Nil
  show ?case by (cases n) (simp_all add: cbyte_def)
next
  case (Cons c nm)
  then show ?case by (cases n) (simp_all add: cbyte_def)
qed

lemma namecmp_padded:
  assumes "NUL \<notin> set nm" and "length nm < DIRSIZ"
  shows "namecmp (nm @ [NUL]) (nm @ replicate (DIRSIZ - length nm) NUL) = 0"
proof -
  from assms(2) obtain k where "DIRSIZ - length nm = Suc k"
    by (cases "DIRSIZ - length nm") auto
  then show ?thesis
    using strncmp_same [OF assms(1), of "[]" "replicate k NUL" DIRSIZ]
    by (simp add: namecmp_def)
qed

text \<open>A state that differs from \<open>s0\<close> in access times only.\<close>

definition same_files :: "fs \<Rightarrow> fs \<Rightarrow> bool" where
  "same_files s s0 = (disk s = disk s0 \<and> isize \<circ> inodes s = isize \<circ> inodes s0 \<and>
     type \<circ> inodes s = type \<circ> inodes s0 \<and> addrs \<circ> inodes s = addrs \<circ> inodes s0)"

lemma same_files_refl [simp]: "same_files s s"
  by (simp add: same_files_def)

lemma same_files_iupdatatime [simp]: "same_files (iupdatatime s i) s0 = same_files s s0"
  by (simp add: same_files_def fun_eq_iff)

lemma same_filesD:
  "same_files s s0 \<Longrightarrow> disk s = disk s0 \<and> isize (inodes s j) = isize (inodes s0 j) \<and>
     type (inodes s j) = type (inodes s0 j) \<and> addrs (inodes s j) = addrs (inodes s0 j)"
  by (simp add: same_files_def fun_eq_iff)

lemma loop_inodes:
  assumes "same_files s loop_fs"
  shows "type (inodes s ROOTINO) = T_DIR" "isize (inodes s ROOTINO) = 128"
    "addrs (inodes s ROOTINO) 0 = 10"
    "disk s 10 = block_of (dirent_bytes 2 ''link1'' @ dirent_bytes 3 ''link2'')"
    "type (inodes s 2) = T_SYMLINK" "isize (inodes s 2) = 6" "addrs (inodes s 2) 0 = 11"
    "disk s 11 = block_of ''/link2''" "type (inodes s 3) = T_SYMLINK"
  by (simp_all add: same_filesD [OF assms] loop_fs_def empty_inode_def ROOTINO_def)

lemma loop_root_entry0:
  assumes "same_files s loop_fs"
  shows "readi s ROOTINO False (\<lambda>_ _. True) 0 0 sizeof_dirent =
    Inr (int sizeof_dirent, dirent_bytes 2 ''link1'', iupdatatime s ROOTINO)"
proof -
  note i = loop_inodes [OF assms]
  have "readi s ROOTINO False (\<lambda>_ _. True) 0 0 sizeof_dirent =
      Inr (int sizeof_dirent, map (\<lambda>j. disk s 10 (0 mod BSIZE + j)) [0..<sizeof_dirent],
           iupdatatime s ROOTINO)"
    by (rule readi_one_block) (simp_all add: i BSIZE_def NDIRECT_def sizeof_dirent_val)
  moreover have "map (\<lambda>j. disk s 10 (0 mod BSIZE + j)) [0..<sizeof_dirent] =
      dirent_bytes 2 ''link1''"
    using block_of_slice [of 0 64 "dirent_bytes 2 ''link1'' @ dirent_bytes 3 ''link2''"]
    by (simp add: i length_dirent_bytes DIRSIZ_def sizeof_dirent_val)
  ultimately show ?thesis by simp
qed

lemma loop_root_entry1:
  assumes "same_files s loop_fs"
  shows "readi s ROOTINO False (\<lambda>_ _. True) 0 (0 + sizeof_dirent) sizeof_dirent =
    Inr (int sizeof_dirent, dirent_bytes 3 ''link2'', iupdatatime s ROOTINO)"
proof -
  note i = loop_inodes [OF assms]
  have "readi s ROOTINO False (\<lambda>_ _. True) 0 (0 + sizeof_dirent) sizeof_dirent =
      Inr (int sizeof_dirent,
           map (\<lambda>j. disk s 10 ((0 + sizeof_dirent) mod BSIZE + j)) [0..<sizeof_dirent],
           iupdatatime s ROOTINO)"
    by (rule readi_one_block) (simp_all add: i BSIZE_def NDIRECT_def sizeof_dirent_val)
  moreover have "map (\<lambda>j. disk s 10 ((0 + sizeof_dirent) mod BSIZE + j)) [0..<sizeof_dirent] =
      dirent_bytes 3 ''link2''"
    using block_of_slice [of 64 64 "dirent_bytes 2 ''link1'' @ dirent_bytes 3 ''link2''"]
    by (simp add: i length_dirent_bytes DIRSIZ_def sizeof_dirent_val BSIZE_def)
  ultimately show ?thesis by simp
qed

lemma loop_lookup_link1:
  assumes "same_files s loop_fs"
  shows "dirlookup s ROOTINO (''link1'' @ [NUL]) = Inr (Some 2, iupdatatime s ROOTINO)"
proof -
  note i = loop_inodes [OF assms]
  have c: "namecmp (''link1'' @ [NUL]) (de_name (dirent_bytes 2 ''link1'')) = 0"
    using namecmp_padded [of "''link1''"]
    by (simp add: de_name_bytes DIRSIZ_def NUL_def)
  have "dirlookup_loop s ROOTINO (''link1'' @ [NUL]) 0 =
      Inr (Some (de_inum (dirent_bytes 2 ''link1'')), iupdatatime s ROOTINO)"
    by (rule dirlookup_loop_hit [OF _ loop_root_entry0 [OF assms] _ c])
      (simp_all add: i de_inum_bytes)
  then show ?thesis by (simp add: dirlookup_def i de_inum_bytes)
qed

lemma loop_lookup_link2:
  assumes "same_files s loop_fs"
  shows "dirlookup s ROOTINO (''link2'' @ [NUL]) =
    Inr (Some 3, iupdatatime (iupdatatime s ROOTINO) ROOTINO)"
proof -
  note i = loop_inodes [OF assms]
  have s1: "same_files (iupdatatime s ROOTINO) loop_fs" using assms by simp
  have c1: "namecmp (''link2'' @ [NUL]) (de_name (dirent_bytes 2 ''link1'')) \<noteq> 0"
    by (simp add: namecmp_def de_name_bytes DIRSIZ_def cbyte_def NUL_def)
  have c2: "namecmp (''link2'' @ [NUL]) (de_name (dirent_bytes 3 ''link2'')) = 0"
    using namecmp_padded [of "''link2''"]
    by (simp add: de_name_bytes DIRSIZ_def NUL_def)
  have "dirlookup_loop s ROOTINO (''link2'' @ [NUL]) 0 =
      dirlookup_loop (iupdatatime s ROOTINO) ROOTINO (''link2'' @ [NUL]) (0 + sizeof_dirent)"
    by (rule dirlookup_loop_miss [OF _ loop_root_entry0 [OF assms]]) (simp_all add: i c1 [simplified])
  also have "\<dots> = Inr (Some (de_inum (dirent_bytes 3 ''link2'')),
      iupdatatime (iupdatatime s ROOTINO) ROOTINO)"
    by (rule dirlookup_loop_hit [OF _ loop_root_entry1 [OF s1] _ c2])
      (simp_all add: i de_inum_bytes sizeof_dirent_val)
  finally show ?thesis by (simp add: dirlookup_def i de_inum_bytes)
qed

lemma loop_read_link1:
  assumes "same_files s loop_fs"
  shows "readi s 2 False (\<lambda>_ _. True) 0 0 MAXPATH = Inr (6, ''/link2'', iupdatatime s 2)"
proof -
  note i = loop_inodes [OF assms]
  have l: "readi_loop s 2 False (\<lambda>_ _. True) 0 0 6 0 [] = Inr (6, ''/link2'', s)"
  proof -
    have b: "bmap s 2 (0 div BSIZE) = Inr (11, s)"
      by (simp add: bmap_def bmap_slot_mapped i NDIRECT_def)
    have m: "min (6 - 0) (BSIZE - 0 mod BSIZE) = (6::nat)" by (simp add: BSIZE_def)
    have e: "map (block_of ''/link2'') [0..<6] = ''/link2''"
      using block_of_prefix [of 6 "''/link2''"] by simp
    have fin: "readi_loop s 2 False (\<lambda>_ _. True) 6 6 6 6 out = Inr (6, out, s)" for out
      by (subst readi_loop.simps) simp
    show ?thesis
      apply (subst readi_loop.simps)
      apply (simp only: b m)
      apply (simp add: either_copyout_def Let_def i e [simplified] fin)
      done
  qed
  show ?thesis
    by (simp add: readi_def i uadd_def MAXPATH_def l int_of_uint_def)
qed

lemma link1_name: "skipelem ''/link1'' = Some ([], ''link1'' @ [NUL])"
  by (simp add: skipelem_def is_slash_def DIRSIZ_def)

lemma link2_name: "skipelem ''/link2'' = Some ([], ''link2'' @ [NUL])"
  by (simp add: skipelem_def is_slash_def DIRSIZ_def)

lemma skipelem_Nil: "skipelem [] = None"
  by (simp add: skipelem_def)

lemma T_distinct: "T_DIR \<noteq> 0" "T_SYMLINK \<noteq> 0" "T_SYMLINK \<noteq> T_DIR" "T_DIR \<noteq> T_SYMLINK"
  by (simp_all add: T_DIR_def T_SYMLINK_def)

text \<open>
  C3 fails on the code. The walk of a link's target (the inner loop of \<open>namex\<close>) does not
  look at the type of what it reaches: resolving \<^verbatim>\<open>/link1\<close> over the two cross-linked
  links follows one link and returns inode 3, the symbolic link \<^verbatim>\<open>/link2\<close> itself, instead
  of failing.
\<close>

theorem namei_symlink_cycle:
  "map_sum id fst (namei loop_fs ROOTINO ''/link1'') = Inr (Some 3) \<and>
   type (inodes loop_fs 3) = T_SYMLINK"
proof -
  let ?s1 = "iupdatatime loop_fs ROOTINO"
  let ?s2 = "iupdatatime ?s1 2"
  let ?s4 = "iupdatatime (iupdatatime ?s2 ROOTINO) ROOTINO"
  have sf: "same_files loop_fs loop_fs" "same_files ?s1 loop_fs" "same_files ?s2 loop_fs"
    "same_files ?s4 loop_fs"
    by simp_all
  have fin: "namex_loop ?s4 False 3 [] (''link2'' @ [NUL]) (0 + 1) =
      Inr (Some 3, ''link2'' @ [NUL], ?s4)"
    by (subst namex_loop.simps) (simp add: skipelem_Nil)
  have w2: "symlink_walk ?s4 3 [] (''link2'' @ [NUL]) = Inr (Some 3, ''link2'' @ [NUL], ?s4)"
    by (subst symlink_walk.simps) (simp add: skipelem_Nil)
  have w: "symlink_walk ?s2 ROOTINO ''/link2'' (''link1'' @ [NUL]) =
      Inr (Some 3, ''link2'' @ [NUL], ?s4)"
    by (subst symlink_walk.simps)
      (simp add: link2_name [simplified] ilock_panics_def loop_inodes [OF sf(1)] T_distinct
        loop_lookup_link2 [OF sf(3), simplified] w2 [simplified])
  have tgt: "cbyte ''/link2'' = CHR ''/''" "cstr ''/link2'' = ''/link2''"
    by (simp_all add: cbyte_def cstr_def NUL_def)
  have lim: "\<not> MAXPATH \<le> 6" "\<not> MAX_SYMLINK_DEPTH < 0 + 1"
    by (simp_all add: MAXPATH_def MAX_SYMLINK_DEPTH_def)
  have "namex_loop loop_fs False ROOTINO ''/link1'' [] 0 = Inr (Some 3, ''link2'' @ [NUL], ?s4)"
    by (subst namex_loop.simps)
      (simp add: link1_name [simplified] ilock_panics_def loop_inodes [OF sf(1)] T_distinct
        loop_lookup_link1 [OF sf(1), simplified]
        loop_read_link1 [OF sf(2)] lim [simplified] tgt [simplified]
        w [simplified] fin [simplified])
  then show ?thesis
    by (simp add: namei_def namex_def loop_inodes [OF sf(1)])
qed

subsection \<open>Path components\<close>

text \<open>
  The components of a path as the specification speaks of them: the path is split at every
  slash and the empty pieces are dropped.
\<close>

fun split_slash :: "string \<Rightarrow> string list" where
  "split_slash [] = [[]]"
| "split_slash (c # cs) =
     (if is_slash c then [] # split_slash cs
      else (case split_slash cs of w # ws \<Rightarrow> (c # w) # ws | [] \<Rightarrow> [[c]]))"

definition components :: "string \<Rightarrow> string list" where
  "components p = filter (\<lambda>w. w \<noteq> []) (split_slash p)"

lemma split_slash_shape:
  "split_slash cs = takeWhile (\<lambda>c. \<not> is_slash c) cs #
     (case dropWhile (\<lambda>c. \<not> is_slash c) cs of [] \<Rightarrow> [] | _ # r \<Rightarrow> split_slash r)"
  by (induction cs) auto

lemma components_slash: "is_slash c \<Longrightarrow> components (c # cs) = components cs"
  by (simp add: components_def)

lemma components_dropWhile: "components (dropWhile is_slash p) = components p"
  by (induction p) (simp_all add: components_slash)

lemma components_Nil: "components [] = []"
  by (simp add: components_def)

lemma components_elem:
  assumes "\<not> is_slash c"
  shows "components (c # cs) =
    (c # takeWhile (\<lambda>c. \<not> is_slash c) cs) # components (dropWhile (\<lambda>c. \<not> is_slash c) cs)"
proof -
  let ?r = "dropWhile (\<lambda>c. \<not> is_slash c) cs"
  have tl: "filter (\<lambda>w. w \<noteq> []) (case ?r of [] \<Rightarrow> [] | _ # r \<Rightarrow> split_slash r) = components ?r"
  proof (cases ?r)
    case Nil
    show ?thesis unfolding Nil by (simp add: components_Nil)
  next
    case (Cons d r)
    then have "is_slash d" using hd_dropWhile [of "\<lambda>c. \<not> is_slash c" cs] by auto
    with Cons show ?thesis by (simp add: components_def)
  qed
  have "split_slash (c # cs) = (c # takeWhile (\<lambda>c. \<not> is_slash c) cs) #
      (case ?r of [] \<Rightarrow> [] | _ # r \<Rightarrow> split_slash r)"
  proof -
    have sh: "split_slash cs = takeWhile (\<lambda>c. \<not> is_slash c) cs #
        (case ?r of [] \<Rightarrow> [] | _ # r \<Rightarrow> split_slash r)"
      by (rule split_slash_shape)
    have "split_slash (c # cs) = (case split_slash cs of w # ws \<Rightarrow> (c # w) # ws | [] \<Rightarrow> [[c]])"
      using assms by simp
    also have "\<dots> = (c # takeWhile (\<lambda>c. \<not> is_slash c) cs) #
        (case ?r of [] \<Rightarrow> [] | _ # r \<Rightarrow> split_slash r)"
      by (subst sh) simp
    finally show ?thesis .
  qed
  then have "components (c # cs) = (c # takeWhile (\<lambda>c. \<not> is_slash c) cs) #
      filter (\<lambda>w. w \<noteq> []) (case ?r of [] \<Rightarrow> [] | _ # r \<Rightarrow> split_slash r)"
    unfolding components_def by simp
  then show ?thesis unfolding tl .
qed

text \<open>What \<open>skipelem\<close> leaves in the name buffer for a component.\<close>

definition name_of :: "string \<Rightarrow> string" where
  "name_of e = (if length e \<ge> DIRSIZ then take DIRSIZ e else e @ [NUL])"

lemma skipelem_None: "skipelem p = None \<longleftrightarrow> components p = []"
proof (cases "dropWhile is_slash p")
  case Nil
  have "components p = []" using components_dropWhile [of p] unfolding Nil
    by (simp add: components_Nil)
  moreover have "skipelem p = None" unfolding skipelem_def Let_def Nil by simp
  ultimately show ?thesis by simp
next
  case (Cons c cs)
  then have c: "\<not> is_slash c" using hd_dropWhile [of is_slash p] by auto
  have "components p = components (c # cs)"
    using components_dropWhile [of p] unfolding Cons by simp
  then have "components p \<noteq> []" using c by (simp add: components_elem)
  moreover have "skipelem p \<noteq> None" unfolding skipelem_def Let_def Cons by simp
  ultimately show ?thesis by simp
qed

lemma skipelem_Some:
  assumes "skipelem p = Some (rest, nm)"
  shows "\<exists>e. components p = e # components rest \<and> nm = name_of e"
proof (cases "dropWhile is_slash p")
  case Nil
  have "skipelem p = None" unfolding skipelem_def Let_def Nil by simp
  with assms show ?thesis by simp
next
  case (Cons c cs)
  then have c: "\<not> is_slash c" using hd_dropWhile [of is_slash p] by auto
  let ?e = "c # takeWhile (\<lambda>c. \<not> is_slash c) cs"
  let ?p2 = "dropWhile (\<lambda>c. \<not> is_slash c) cs"
  have "skipelem p = Some (dropWhile is_slash ?p2, name_of ?e)"
    unfolding skipelem_def Let_def Cons using c by (simp add: name_of_def)
  with assms have r: "rest = dropWhile is_slash ?p2" and n: "nm = name_of ?e" by simp_all
  have "components p = components (c # cs)"
    using components_dropWhile [of p] unfolding Cons by simp
  then have "components p = ?e # components ?p2"
    using c by (simp add: components_elem)
  then have "components p = ?e # components rest"
    by (simp add: r components_dropWhile)
  with n show ?thesis by blast
qed

lemma skipelem_rest_Nil:
  assumes "skipelem p = Some (rest, nm)"
  shows "rest = [] \<longleftrightarrow> components rest = []"
proof
  assume "rest = []" then show "components rest = []" by (simp add: components_Nil)
next
  assume e: "components rest = []"
  show "rest = []"
  proof (rule ccontr)
    assume ne: "rest \<noteq> []"
    from assms obtain q where r: "rest = dropWhile is_slash q"
      by (auto simp: skipelem_def Let_def split: if_splits)
    with ne have "\<not> is_slash (hd rest)" using hd_dropWhile [of is_slash q] by simp
    with ne have "components rest \<noteq> []" by (cases rest) (simp_all add: components_elem)
    with e show False by simp
  qed
qed

lemma name_of_cong: "take DIRSIZ e1 = take DIRSIZ e2 \<Longrightarrow> name_of e1 = name_of e2"
proof -
  assume t: "take DIRSIZ e1 = take DIRSIZ e2"
  show ?thesis
  proof (cases "length e1 \<ge> DIRSIZ")
    case True
    then have "length (take DIRSIZ e1) = DIRSIZ" by simp
    with t have "length (take DIRSIZ e2) = DIRSIZ" by simp
    then have "length e2 \<ge> DIRSIZ" by simp
    with True t show ?thesis by (simp add: name_of_def)
  next
    case False
    then have "length (take DIRSIZ e1) < DIRSIZ" by simp
    with t have "length (take DIRSIZ e2) < DIRSIZ" by simp
    then have "length e2 < DIRSIZ" by (simp add: min_def split: if_splits)
    with False t show ?thesis by (simp add: name_of_def)
  qed
qed


text \<open>A path is absolute when it begins with a slash.\<close>

definition absolute :: "string \<Rightarrow> bool" where
  "absolute p = (case p of [] \<Rightarrow> False | c # _ \<Rightarrow> c = CHR ''/'')"

lemma namex_loop_components:
  "map (take DIRSIZ) (components p1) = map (take DIRSIZ) (components p2) \<Longrightarrow>
   namex_loop s par ip p1 nm0 d = namex_loop s par ip p2 nm0 d"
proof (induction "length p1" arbitrary: p1 p2 s ip nm0 d rule: less_induct)
  case less
  note eq = less.prems
  show ?case
  proof (cases "skipelem p1")
    case None
    then have "components p1 = []" by (simp add: skipelem_None)
    with eq have "components p2 = []" by simp
    then have "skipelem p2 = None" by (simp add: skipelem_None)
    with None show ?thesis
      by (simp add: namex_loop.simps [of s par ip p1] namex_loop.simps [of s par ip p2])
  next
    case (Some a)
    obtain r1 n1 where a: "a = (r1, n1)" by (cases a)
    note sk1 = Some [unfolded a]
    from skipelem_Some [OF sk1] obtain e1 where
      c1: "components p1 = e1 # components r1" and n1: "n1 = name_of e1" by blast
    from c1 eq have "components p2 \<noteq> []" by auto
    then obtain b where "skipelem p2 = Some b" using skipelem_None [of p2] by (cases "skipelem p2") auto
    then obtain r2 n2 where sk2: "skipelem p2 = Some (r2, n2)" by (cases b) auto
    from skipelem_Some [OF sk2] obtain e2 where
      c2: "components p2 = e2 # components r2" and n2: "n2 = name_of e2" by blast
    from eq c1 c2 have te: "take DIRSIZ e1 = take DIRSIZ e2"
      and re: "map (take DIRSIZ) (components r1) = map (take DIRSIZ) (components r2)"
      by simp_all
    have nn: "n2 = n1" using name_of_cong [OF te] n1 n2 by simp
    from re have "components r1 = [] \<longleftrightarrow> components r2 = []"
      by (metis map_is_Nil_conv)
    then have rn: "r1 = [] \<longleftrightarrow> r2 = []"
      using skipelem_rest_Nil [OF sk1] skipelem_rest_Nil [OF sk2] by simp
    have IH: "namex_loop s' par ip' r1 nm' d' = namex_loop s' par ip' r2 nm' d'" for s' ip' nm' d'
      by (rule less.hyps [OF skipelem_shorter [OF sk1] re])
    show ?thesis
      apply (subst namex_loop.simps [of s par ip p1 nm0 d])
      apply (subst namex_loop.simps [of s par ip p2 nm0 d])
      apply (simp only: sk1 sk2 nn option.case prod.case)
      apply (simp only: IH rn)
      done
  qed
qed


lemma components_relative: "p \<noteq> [] \<Longrightarrow> \<not> absolute p \<Longrightarrow> components p \<noteq> []"
  by (cases p) (simp_all add: absolute_def components_elem is_slash_def)

text \<open>
  C10. \<open>skipelem\<close> hands every component of \<open>DIRSIZ = 62\<close> bytes or more to the lookup
  cut to its first 62 bytes, with no terminator, and \<open>namecmp\<close> compares at most 62
  bytes. So two paths that are both absolute or both relative and whose components agree
  pairwise on their first 62 bytes give the same result, inode and state, from \<open>namei\<close>
  (and from \<open>nameiparent\<close>): an over-long component is looked up by its prefix and is
  never refused for its length.
\<close>

theorem namei_truncates_components:
  assumes ab: "absolute p1 = absolute p2"
    and eq: "map (take DIRSIZ) (components p1) = map (take DIRSIZ) (components p2)"
  shows "namei s cw p1 = namei s cw p2 \<and> nameiparent s cw p1 = nameiparent s cw p2 \<and>
    DIRSIZ = 62 \<and>
    (\<forall>rest nm. skipelem p1 = Some (rest, nm) \<longrightarrow>
       (\<exists>e. components p1 = e # components rest \<and>
            nm = (if length e \<ge> 62 then take 62 e else e @ [NUL])))"
proof -
  have nil: "p1 = [] \<longleftrightarrow> p2 = []"
  proof
    assume p: "p1 = []"
    then have "components p2 = []" "\<not> absolute p2"
      using eq ab by (simp_all add: components_Nil absolute_def)
    then show "p2 = []" using components_relative [of p2] by blast
  next
    assume p: "p2 = []"
    then have "components p1 = []" "\<not> absolute p1"
      using eq ab by (simp_all add: components_Nil absolute_def)
    then show "p1 = []" using components_relative [of p1] by blast
  qed
  have hd: "p1 \<noteq> [] \<Longrightarrow> (hd p1 = CHR ''/'') = (hd p2 = CHR ''/'')"
    using ab nil by (cases p1; cases p2) (simp_all add: absolute_def)
  have x: "namex s cw p1 par nm0 = namex s cw p2 par nm0" for par nm0
  proof (cases "p1 = []")
    case True
    with nil show ?thesis by (simp add: namex_def)
  next
    case False
    with nil hd have "(if hd p1 = CHR ''/'' then ROOTINO else cw) =
        (if hd p2 = CHR ''/'' then ROOTINO else cw)" "p2 \<noteq> []"
      by simp_all
    with False show ?thesis
      using namex_loop_components [OF eq, of s par _ nm0 0] by (simp add: namex_def)
  qed
  have t: "\<forall>rest nm. skipelem p1 = Some (rest, nm) \<longrightarrow>
       (\<exists>e. components p1 = e # components rest \<and>
            nm = (if length e \<ge> 62 then take 62 e else e @ [NUL]))"
  proof (intro allI impI)
    fix rest nm
    assume "skipelem p1 = Some (rest, nm)"
    from skipelem_Some [OF this] obtain e where
      "components p1 = e # components rest \<and> nm = name_of e" by blast
    then have "components p1 = e # components rest \<and>
        nm = (if length e \<ge> 62 then take 62 e else e @ [NUL])"
      by (simp only: name_of_def DIRSIZ_def)
    then show "\<exists>e. components p1 = e # components rest \<and>
        nm = (if length e \<ge> 62 then take 62 e else e @ [NUL])" ..
  qed
  from x t show ?thesis by (simp add: namei_def nameiparent_def DIRSIZ_def)
qed

subsection \<open>Example: a name of exactly \<open>DIRSIZ\<close> bytes\<close>

definition name62 :: string where
  "name62 = replicate 62 (CHR ''a'')"

text \<open>The root directory holds one entry, inode 2, whose name fills the whole name field.\<close>

definition long_fs :: fs where
  "long_fs = \<lparr>sb_size = 16, sb_ninodes = 16, sb_inodestart = 2, bitmap = (\<lambda>b. b < 13),
     disk = (\<lambda>_. zero_block)(10 := block_of (dirent_bytes 2 name62)),
     inodes = (\<lambda>_. empty_inode)
       (1 := empty_inode\<lparr>inum := 1, type := T_DIR, nlink := 1, isize := 64,
               addrs := (\<lambda>_. 0)(0 := 10)\<rparr>,
        2 := empty_inode\<lparr>inum := 2, type := T_FILE, nlink := 1\<rparr>),
     atime_clock = 0\<rparr>"

lemma strncmp_refl: "strncmp p p n = 0"
  by (induction n arbitrary: p) simp_all

lemma components_one:
  assumes "e \<noteq> []" and ns: "\<forall>c \<in> set e. \<not> is_slash c"
  shows "components (CHR ''/'' # e) = [e]"
proof -
  from assms obtain c cs where e: "e = c # cs" by (cases e) auto
  with ns have c: "\<not> is_slash c" and cs: "\<forall>c \<in> set cs. \<not> is_slash c" by simp_all
  from cs have t: "takeWhile (\<lambda>c. \<not> is_slash c) cs = cs" "dropWhile (\<lambda>c. \<not> is_slash c) cs = []"
    by simp_all
  have "components (CHR ''/'' # e) = components e"
    by (rule components_slash) (simp add: is_slash_def)
  also have "\<dots> = [e]" unfolding e components_elem [OF c] t by (simp add: components_Nil)
  finally show ?thesis .
qed

lemma skipelem_one:
  assumes "e \<noteq> []" and ns: "\<forall>c \<in> set e. \<not> is_slash c"
  shows "skipelem (CHR ''/'' # e) = Some ([], name_of e)"
proof -
  from assms obtain c cs where e: "e = c # cs" by (cases e) auto
  with ns have c: "\<not> is_slash c" and cs: "\<forall>c \<in> set cs. \<not> is_slash c" by simp_all
  from cs have t: "takeWhile (\<lambda>c. \<not> is_slash c) cs = cs" "dropWhile (\<lambda>c. \<not> is_slash c) cs = []"
    by simp_all
  have d: "dropWhile is_slash (CHR ''/'' # e) = c # cs" using c by (simp add: e is_slash_def)
  show ?thesis unfolding skipelem_def Let_def d by (simp add: c t name_of_def e)
qed

lemma long_lookup:
  "dirlookup long_fs ROOTINO name62 = Inr (Some 2, iupdatatime long_fs ROOTINO)"
proof -
  have i: "type (inodes long_fs ROOTINO) = T_DIR" "isize (inodes long_fs ROOTINO) = 64"
    "addrs (inodes long_fs ROOTINO) 0 = 10" "disk long_fs 10 = block_of (dirent_bytes 2 name62)"
    by (simp_all add: long_fs_def empty_inode_def ROOTINO_def)
  have l: "length name62 = DIRSIZ" by (simp add: name62_def DIRSIZ_def)
  have "readi long_fs ROOTINO False (\<lambda>_ _. True) 0 0 sizeof_dirent =
      Inr (int sizeof_dirent, map (\<lambda>j. disk long_fs 10 (0 mod BSIZE + j)) [0..<sizeof_dirent],
           iupdatatime long_fs ROOTINO)"
    by (rule readi_one_block) (simp_all add: i BSIZE_def NDIRECT_def sizeof_dirent_val)
  moreover have "map (\<lambda>j. disk long_fs 10 (0 mod BSIZE + j)) [0..<sizeof_dirent] =
      dirent_bytes 2 name62"
    using block_of_prefix [of sizeof_dirent "dirent_bytes 2 name62"]
    by (simp add: i length_dirent_bytes l)
  ultimately have r: "readi long_fs ROOTINO False (\<lambda>_ _. True) 0 0 sizeof_dirent =
      Inr (int sizeof_dirent, dirent_bytes 2 name62, iupdatatime long_fs ROOTINO)"
    by simp
  have c: "namecmp name62 (de_name (dirent_bytes 2 name62)) = 0"
    by (simp add: de_name_bytes l namecmp_def strncmp_refl)
  have "dirlookup_loop long_fs ROOTINO name62 0 =
      Inr (Some (de_inum (dirent_bytes 2 name62)), iupdatatime long_fs ROOTINO)"
    by (rule dirlookup_loop_hit [OF _ r _ c]) (simp_all add: i de_inum_bytes)
  then show ?thesis by (simp add: dirlookup_def i de_inum_bytes)
qed

lemma namei_long:
  "namei long_fs ROOTINO (CHR ''/'' # replicate 70 (CHR ''a'')) =
     Inr (Some 2, iupdatatime long_fs ROOTINO)"
proof -
  let ?e = "replicate 70 (CHR ''a'')"
  have sk: "skipelem (CHR ''/'' # ?e) = Some ([], name62)"
    using skipelem_one [of ?e] by (simp add: is_slash_def name_of_def DIRSIZ_def name62_def)
  have t: "type (inodes long_fs ROOTINO) = T_DIR" "type (inodes long_fs 2) = T_FILE"
    by (simp_all add: long_fs_def empty_inode_def ROOTINO_def)
  have T: "T_DIR \<noteq> 0" "T_FILE \<noteq> 0" "T_FILE \<noteq> T_SYMLINK"
    by (simp_all add: T_DIR_def T_FILE_def T_SYMLINK_def)
  have fin: "namex_loop (iupdatatime long_fs ROOTINO) False 2 [] name62 0 =
      Inr (Some 2, name62, iupdatatime long_fs ROOTINO)"
    by (subst namex_loop.simps) (simp add: skipelem_Nil)
  have "namex_loop long_fs False ROOTINO (CHR ''/'' # ?e) [] 0 =
      Inr (Some 2, name62, iupdatatime long_fs ROOTINO)"
    by (subst namex_loop.simps) (simp add: sk ilock_panics_def t T long_lookup fin)
  then show ?thesis by (simp add: namei_def namex_def)
qed

theorem namei_truncates_components_witness:
  "namei long_fs ROOTINO (CHR ''/'' # replicate 62 (CHR ''a'') @ ''bcd'') =
     Inr (Some 2, iupdatatime long_fs ROOTINO) \<and>
   namei long_fs ROOTINO (CHR ''/'' # replicate 70 (CHR ''a'')) =
     Inr (Some 2, iupdatatime long_fs ROOTINO)"
proof -
  let ?p1 = "CHR ''/'' # replicate 62 (CHR ''a'') @ ''bcd''"
  let ?p2 = "CHR ''/'' # replicate 70 (CHR ''a'')"
  have a: "absolute ?p1 = absolute ?p2" by (simp add: absolute_def)
  have c1: "components ?p1 = [replicate 62 (CHR ''a'') @ ''bcd'']"
    by (rule components_one) (auto simp: is_slash_def)
  have c2: "components ?p2 = [replicate 70 (CHR ''a'')]"
    by (rule components_one) (auto simp: is_slash_def)
  have e: "map (take DIRSIZ) (components ?p1) = map (take DIRSIZ) (components ?p2)"
    unfolding c1 c2 by (simp add: DIRSIZ_def)
  from namei_truncates_components [OF a e, of long_fs ROOTINO, THEN conjunct1] namei_long
  show ?thesis by simp
qed

section \<open>System-call dispatcher (kernel/syscall.c, kernel/sysproc.c, kernel/sysfile.c)\<close>

text \<open>
  Modelled from the spec: \<^verbatim>\<open>syscall.h\<close>, \<^verbatim>\<open>fcntl.h\<close> and \<^verbatim>\<open>param.h\<close> are not among the
  sources. The call numbers are those written beside the entries of the dispatch table
  (the ids are contiguous from 1), the table has 28 slots, the open flags are read,
  write, read-write, create and truncate with their usual values, and \<^verbatim>\<open>NDEV\<close> is 10.
\<close>

definition SYS_getpid :: nat where "SYS_getpid = 11"
definition SYS_open :: nat where "SYS_open = 15"
definition SYS_geterrno :: nat where "SYS_geterrno = 24"
definition NELEM_syscalls :: nat where "NELEM_syscalls = 28"

definition O_RDONLY :: "32 word" where "O_RDONLY = 0x000"
definition O_WRONLY :: "32 word" where "O_WRONLY = 0x001"
definition O_RDWR :: "32 word" where "O_RDWR = 0x002"
definition O_CREATE :: "32 word" where "O_CREATE = 0x200"
definition O_TRUNC :: "32 word" where "O_TRUNC = 0x400"
definition NDEV :: int where "NDEV = 10"

text \<open>
  A handler runs in the calling process \<open>p\<close> on the file system \<open>s\<close> and returns the
  \<^verbatim>\<open>uint64\<close> result. An \<^verbatim>\<open>int\<close> returned as \<^verbatim>\<open>uint64\<close> is sign-extended.
\<close>

type_synonym handler = "proc \<Rightarrow> fs \<Rightarrow> kfault + (64 word \<times> proc \<times> fs)"

definition uint64_of_int :: "int \<Rightarrow> 64 word" where
  "uint64_of_int i = word_of_int i"

text \<open>
  What lies outside the modelled code: the strings in the user memory of the caller
  (\<open>ustr a\<close> is the string at address \<open>a\<close>, \<open>None\<close> when the address is not mapped);
  \<^verbatim>\<open>create(path, T_FILE, 0, 0)\<close>, which returns an error code or a locked inode;
  \<^verbatim>\<open>filealloc\<close> followed by \<^verbatim>\<open>fdalloc\<close>, which return the new descriptor unless one of
  them fails; \<^verbatim>\<open>itrunc\<close>; and the handlers of the dispatch table that are not modelled.
\<close>

record sysenv =
  ustr :: "64 word \<Rightarrow> string option"
  create_file :: "fs \<Rightarrow> nat \<Rightarrow> string \<Rightarrow> kfault + ((int + nat) \<times> fs)"
  fd_alloc :: "proc \<Rightarrow> nat \<Rightarrow> int option"
  itrunc_fn :: "fs \<Rightarrow> nat \<Rightarrow> fs"
  other_calls :: "nat \<Rightarrow> handler option"

definition sys_getpid :: handler where
  "sys_getpid p s = Inr (uint64_of_int (pid p), p, s)"

definition sys_geterrno :: handler where
  "sys_geterrno p s = Inr (uint64_of_int (errno p), p, s)"

text \<open>
  \<open>argstr\<close>: the string at the address in the register, \<open>None\<close> when \<^verbatim>\<open>copyinstr\<close> fails
  (unmapped address, or no NUL within \<open>mx\<close> bytes).
\<close>

definition argstr :: "sysenv \<Rightarrow> 64 word \<Rightarrow> nat \<Rightarrow> string option" where
  "argstr e addr mx =
     (case ustr e addr of None \<Rightarrow> None
      | Some str \<Rightarrow> if length str < mx then Some str else None)"

text \<open>The part of \<open>sys_open\<close> after the inode has been found and locked.\<close>

definition open_inode :: "sysenv \<Rightarrow> proc \<Rightarrow> fs \<Rightarrow> nat \<Rightarrow> 32 word \<Rightarrow> kfault + (64 word \<times> proc \<times> fs)" where
  "open_inode e p s ip omode =
     (if type (inodes s ip) = T_DEVICE \<and> (major (inodes s ip) < 0 \<or> major (inodes s ip) \<ge> NDEV)
      then Inr (uint64_of_int (- ENXIO), p, s)
      else (case fd_alloc e p ip of
          None \<Rightarrow> Inr (uint64_of_int (- EMFILE), p, s)
        | Some fd \<Rightarrow>
            Inr (uint64_of_int fd, p,
                 if omode AND O_TRUNC \<noteq> 0 \<and> type (inodes s ip) = T_FILE
                 then itrunc_fn e s ip else s)))"

definition sys_open :: "sysenv \<Rightarrow> handler" where
  "sys_open e p s =
     (case trapframe p of
        None \<Rightarrow> Inl (Undefined ''null trapframe'')
      | Some tf \<Rightarrow>
          let omode = (ucast (a1 tf) :: 32 word) in
          (case argstr e (a0 tf) MAXPATH of
             None \<Rightarrow> Inr (uint64_of_int (- EINVAL), p, s)
           | Some path \<Rightarrow>
               if omode AND O_CREATE \<noteq> 0 then
                 (case create_file e s (cwd p) path of
                    Inl f \<Rightarrow> Inl f
                  | Inr (Inl err, s1) \<Rightarrow> Inr (uint64_of_int (- err), p, s1)
                  | Inr (Inr ip, s1) \<Rightarrow> open_inode e p s1 ip omode)
               else
                 (case namei s (cwd p) path of
                    Inl f \<Rightarrow> Inl f
                  | Inr (None, s1) \<Rightarrow> Inr (uint64_of_int (- ENOENT), p, s1)
                  | Inr (Some ip, s1) \<Rightarrow>
                      if ilock_panics s1 ip then Inl (Panic ''ilock: no type'')
                      else if type (inodes s1 ip) = T_DIR \<and> omode \<noteq> O_RDONLY
                        then Inr (uint64_of_int (- EISDIR), p, s1)
                      else open_inode e p s1 ip omode)))"

text \<open>The dispatch table: the three modelled handlers and the others.\<close>

definition syscalls :: "sysenv \<Rightarrow> nat \<Rightarrow> handler option" where
  "syscalls e num =
     (if num = SYS_getpid then Some sys_getpid
      else if num = SYS_open then Some (sys_open e)
      else if num = SYS_geterrno then Some sys_geterrno
      else other_calls e num)"

text \<open>
  \<open>syscall\<close>. The call number is the \<^verbatim>\<open>int\<close> in \<^verbatim>\<open>a7\<close>; a negative \<^verbatim>\<open>long\<close> result is stored,
  negated and cut to \<^verbatim>\<open>int\<close>, in \<^verbatim>\<open>p->errno\<close> and the user gets \<open>-1\<close>; any other result
  clears \<^verbatim>\<open>p->errno\<close> and is returned as it is.
\<close>

definition set_a0 :: "proc \<Rightarrow> 64 word \<Rightarrow> proc" where
  "set_a0 p v = p\<lparr>trapframe := map_option (\<lambda>tf. tf\<lparr>a0 := v\<rparr>) (trapframe p)\<rparr>"

definition syscall :: "sysenv \<Rightarrow> proc \<Rightarrow> fs \<Rightarrow> kfault + (proc \<times> fs)" where
  "syscall e p s =
     (case trapframe p of
        None \<Rightarrow> Inl (Undefined ''null trapframe'')
      | Some tf \<Rightarrow>
          let num = sint (ucast (a7 tf) :: 32 word) in
          (case (if num > 0 \<and> num < int NELEM_syscalls then syscalls e (nat num) else None) of
             Some h \<Rightarrow>
               (case h p s of
                  Inl f \<Rightarrow> Inl f
                | Inr (ret, p1, s1) \<Rightarrow>
                    if sint ret < 0
                    then Inr (set_a0 (p1\<lparr>errno := sint (ucast (- ret) :: 32 word)\<rparr>) (- 1), s1)
                    else Inr (set_a0 (p1\<lparr>errno := EOK\<rparr>) ret, s1))
           | None \<Rightarrow> Inr (set_a0 (p\<lparr>errno := ENOSYS\<rparr>) (- 1), s)))"

text \<open>
  A system call as the user program makes it: the stub puts the call number in \<^verbatim>\<open>a7\<close> and
  the arguments in \<^verbatim>\<open>a0\<close> and \<^verbatim>\<open>a1\<close> and traps into \<open>syscall\<close>; the value the user sees
  is \<^verbatim>\<open>a0\<close> on return.
\<close>

definition ecall :: "sysenv \<Rightarrow> nat \<Rightarrow> 64 word \<Rightarrow> 64 word \<Rightarrow> proc \<Rightarrow> fs \<Rightarrow> kfault + (64 word \<times> proc \<times> fs)" where
  "ecall e num x0 x1 p s =
     (case syscall e (p\<lparr>trapframe := map_option (\<lambda>tf. tf\<lparr>a0 := x0, a1 := x1, a7 := of_nat num\<rparr>)
                         (trapframe p)\<rparr>) s of
        Inl f \<Rightarrow> Inl f
      | Inr (p1, s1) \<Rightarrow>
          (case trapframe p1 of
             None \<Rightarrow> Inl (Undefined ''null trapframe'')
           | Some tf \<Rightarrow> Inr (a0 tf, p1, s1)))"

text \<open>A user program that makes the given calls one after the other, with their results.\<close>

fun run_calls ::
  "sysenv \<Rightarrow> (nat \<times> 64 word \<times> 64 word) list \<Rightarrow> proc \<Rightarrow> fs \<Rightarrow> kfault + (64 word list \<times> proc \<times> fs)" where
  "run_calls e [] p s = Inr ([], p, s)"
| "run_calls e ((num, x0, x1) # cs) p s =
     (case ecall e num x0 x1 p s of
        Inl f \<Rightarrow> Inl f
      | Inr (r, p1, s1) \<Rightarrow>
          (case run_calls e cs p1 s1 of
             Inl f \<Rightarrow> Inl f
           | Inr (rs, p2, s2) \<Rightarrow> Inr (r # rs, p2, s2)))"


subsection \<open>Example: errno after a failed open\<close>

text \<open>
  A process whose user memory holds the string \<^verbatim>\<open>/nonexistent\<close> at address 4096, on the
  file system whose root holds a single other name.
\<close>

definition errno_env :: sysenv where
  "errno_env = \<lparr>ustr = (\<lambda>a. if a = 4096 then Some ''/nonexistent'' else None),
     create_file = (\<lambda>s cw path. Inr (Inl ENOENT, s)),
     fd_alloc = (\<lambda>p ip. Some 3), itrunc_fn = (\<lambda>s ip. s), other_calls = (\<lambda>_. None)\<rparr>"

definition errno_proc :: proc where
  "errno_proc = idle_proc\<lparr>state := RUNNING, pid := 1, priority := 5, pagetable := True,
     trapframe := Some \<lparr>a0 = 0, a1 = 0, a7 = 0\<rparr>, cwd := ROOTINO, name := ''errno_test''\<rparr>"

lemma long_lookup_miss:
  "dirlookup long_fs ROOTINO (''nonexistent'' @ [NUL]) = Inr (None, iupdatatime long_fs ROOTINO)"
proof -
  have i: "type (inodes long_fs ROOTINO) = T_DIR" "isize (inodes long_fs ROOTINO) = 64"
    "addrs (inodes long_fs ROOTINO) 0 = 10" "disk long_fs 10 = block_of (dirent_bytes 2 name62)"
    by (simp_all add: long_fs_def empty_inode_def ROOTINO_def)
  have l: "length name62 = DIRSIZ" by (simp add: name62_def DIRSIZ_def)
  have "readi long_fs ROOTINO False (\<lambda>_ _. True) 0 0 sizeof_dirent =
      Inr (int sizeof_dirent, map (\<lambda>j. disk long_fs 10 (0 mod BSIZE + j)) [0..<sizeof_dirent],
           iupdatatime long_fs ROOTINO)"
    by (rule readi_one_block) (simp_all add: i BSIZE_def NDIRECT_def sizeof_dirent_val)
  moreover have "map (\<lambda>j. disk long_fs 10 (0 mod BSIZE + j)) [0..<sizeof_dirent] =
      dirent_bytes 2 name62"
    using block_of_prefix [of sizeof_dirent "dirent_bytes 2 name62"]
    by (simp add: i length_dirent_bytes l)
  ultimately have r: "readi long_fs ROOTINO False (\<lambda>_ _. True) 0 0 sizeof_dirent =
      Inr (int sizeof_dirent, dirent_bytes 2 name62, iupdatatime long_fs ROOTINO)"
    by simp
  have n: "name62 = CHR ''a'' # replicate 61 (CHR ''a'')"
    by (simp add: name62_def numeral_eq_Suc)
  have c: "namecmp (''nonexistent'' @ [NUL]) (de_name (dirent_bytes 2 name62)) \<noteq> 0"
    by (simp add: de_name_bytes l) (simp add: n namecmp_def DIRSIZ_def cbyte_def NUL_def)
  have "dirlookup_loop long_fs ROOTINO (''nonexistent'' @ [NUL]) 0 =
      dirlookup_loop (iupdatatime long_fs ROOTINO) ROOTINO (''nonexistent'' @ [NUL])
        (0 + sizeof_dirent)"
    by (rule dirlookup_loop_miss [OF _ r]) (simp_all add: i c [simplified])
  also have "\<dots> = Inr (None, iupdatatime long_fs ROOTINO)"
    by (rule dirlookup_loop_end) (simp add: i sizeof_dirent_val)
  finally show ?thesis by (simp add: dirlookup_def i)
qed

lemma namei_nonexistent:
  "namei long_fs ROOTINO ''/nonexistent'' = Inr (None, iupdatatime long_fs ROOTINO)"
proof -
  have sk: "skipelem ''/nonexistent'' = Some ([], ''nonexistent'' @ [NUL])"
    by (simp add: skipelem_def is_slash_def DIRSIZ_def)
  have t: "type (inodes long_fs ROOTINO) = T_DIR"
    by (simp add: long_fs_def empty_inode_def ROOTINO_def)
  have T: "T_DIR \<noteq> 0" by (simp add: T_DIR_def)
  have "namex_loop long_fs False ROOTINO ''/nonexistent'' [] 0 =
      Inr (None, ''nonexistent'' @ [NUL], iupdatatime long_fs ROOTINO)"
    by (subst namex_loop.simps)
      (simp add: sk [simplified] ilock_panics_def t T long_lookup_miss [simplified])
  then show ?thesis by (simp add: namei_def namex_def)
qed


lemma uint64_of_int_values:
  "sint (uint64_of_int (- 2)) = - 2" "sint (ucast (- uint64_of_int (- 2)) :: 32 word) = 2"
  "uint64_of_int 2 = 2" "uint64_of_int 1 = 1" "uint64_of_int 0 = 0"
  by (simp_all add: uint64_of_int_def)

text \<open>
  C1 fails on the code. \<^verbatim>\<open>geterrno\<close> is itself a system call that succeeds, so the
  dispatcher clears \<^verbatim>\<open>p->errno\<close> when it returns: after the failed open (result \<open>-1\<close>) the
  first \<^verbatim>\<open>geterrno\<close> returns 2 (\<open>ENOENT\<close>) and the second returns 0. The \<^verbatim>\<open>getpid\<close> that
  follows returns the pid, 1, and the last \<^verbatim>\<open>geterrno\<close> returns 0.
\<close>

theorem errno_not_persistent:
  "map_sum id fst
     (run_calls errno_env
        [(SYS_open, 4096, ucast O_RDONLY), (SYS_geterrno, 0, 0), (SYS_geterrno, 0, 0),
         (SYS_getpid, 0, 0), (SYS_geterrno, 0, 0)]
        errno_proc long_fs)
   = Inr [- 1, 2, 0, 1, 0]"
  by (simp add: ecall_def syscall_def syscalls_def sys_open_def sys_getpid_def sys_geterrno_def
      argstr_def errno_env_def errno_proc_def idle_proc_def set_a0_def namei_nonexistent
      SYS_open_def SYS_getpid_def SYS_geterrno_def NELEM_syscalls_def O_RDONLY_def O_CREATE_def
      MAXPATH_def ENOENT_def EOK_def Let_def uint64_of_int_values)

end
